theory Spec2Isabelle
  imports Complex_Main "HOL-Library.Word"
begin

section \<open>Constants and primitive types\<close>

text \<open>The constants of \<^verbatim>\<open>main.go\<close>: the channel capacity and the backoff cap in seconds.\<close>

definition resultQueueSize :: nat where
  "resultQueueSize = 10"

definition maxRetryDelay :: int where
  "maxRetryDelay = 60 * 60 * 4"

text \<open>
  Modelled from the spec: the hierarchy constants \<^verbatim>\<open>common.PRIME_CTX\<close>,
  \<^verbatim>\<open>common.REGION_CTX\<close>, \<^verbatim>\<open>common.ZONE_CTX\<close> and \<^verbatim>\<open>common.HierarchyDepth\<close> come
  from the go-quai dependency, which is not part of the sources. The spec numbers the
  levels Prime = 0, Region = 1, Zone = 2 and speaks of a fixed 3-slot table.
\<close>

definition PRIME_CTX :: int where
  "PRIME_CTX = 0"

definition REGION_CTX :: int where
  "REGION_CTX = 1"

definition ZONE_CTX :: int where
  "ZONE_CTX = 2"

definition HierarchyDepth :: int where
  "HierarchyDepth = 3"

text \<open>
  Go's \<^verbatim>\<open>int\<close> and \<^verbatim>\<open>time.Duration\<close> are signed 64-bit integers whose arithmetic wraps
  around silently; \<open>go_int\<close> is the wrap-around, written out.
\<close>

definition go_int :: "int \<Rightarrow> int" where
  "go_int x = (x + 2 ^ 63) mod 2 ^ 64 - 2 ^ 63"

text \<open>\<^verbatim>\<open>time.Second\<close>, in nanoseconds.\<close>

definition Second :: int where
  "Second = 1000000000"

text \<open>
  Indexing a Go slice or array: a run-time panic outside \<open>0 \<le> i < len\<close>, here \<open>None\<close>.
\<close>

definition go_index :: "'a list \<Rightarrow> int \<Rightarrow> 'a option" where
  "go_index xs i = (if 0 \<le> i \<and> i < int (length xs) then Some (xs ! nat i) else None)"

text \<open>
  \<^verbatim>\<open>common.Location\<close> belongs to the go-quai dependency, which is not part of the
  sources. \<^verbatim>\<open>main.go\<close> builds a location from two bytes
  (\<^verbatim>\<open>common.Location{byte(region), byte(zone)}\<close>), so a location is a sequence of bytes.
  Its accessors are modelled after go-quai: \<^verbatim>\<open>Region()\<close> and \<^verbatim>\<open>Zone()\<close> are the first and
  the second byte, or \<open>-1\<close> where the byte is missing; \<^verbatim>\<open>AssertValid()\<close> ends the process
  (\<^verbatim>\<open>log.Fatal\<close>) for a zone without a region, for a region index of
  \<^verbatim>\<open>NumRegionsInPrime\<close> or more and for a zone index of \<^verbatim>\<open>NumZonesInRegion\<close> or more; and
  \<^verbatim>\<open>Context()\<close> first calls \<^verbatim>\<open>AssertValid()\<close> and then returns the level the location
  names.
\<close>

type_synonym location = "8 word list"



definition Region :: "location \<Rightarrow> int" where
  "Region loc = (if length loc \<ge> 1 then uint (loc ! 0) else - 1)"

definition Zone :: "location \<Rightarrow> int" where
  "Zone loc = (if length loc \<ge> 2 then uint (loc ! 1) else - 1)"




text \<open>
  The fields of \<^verbatim>\<open>util.Config\<close> that \<^verbatim>\<open>main.go\<close> reads. The type is declared outside the
  sources; the URL tables are indexed as slices of strings.
\<close>

record config =
  Proxy :: bool
  ProxyURL :: string
  PrimeURL :: string
  RegionURLs :: "string list"
  ZoneURLs :: "string list list"
  Location :: location

text \<open>
  A \<^verbatim>\<open>types.Header\<close>, as far as \<^verbatim>\<open>main.go\<close> reads and writes it: the block numbers
  \<^verbatim>\<open>NumberU64(ctx)\<close> for the three contexts and the timestamp set by \<^verbatim>\<open>SetTime\<close>.
\<close>

record header =
  numberPrime :: "64 word"
  numberRegion :: "64 word"
  numberZone :: "64 word"
  htime :: "64 word"

definition NumberU64 :: "header \<Rightarrow> int \<Rightarrow> 64 word" where
  "NumberU64 h ctx =
     (if ctx = PRIME_CTX then numberPrime h
      else if ctx = REGION_CTX then numberRegion h
      else numberZone h)"

section \<open>Effects\<close>

text \<open>
  What the functions of \<^verbatim>\<open>main.go\<close> do to the outside world, as a trace of events:
  a log line (named by its constant leading text), a sleep (in nanoseconds), a dial, the
  operations on the stop channel of the mining loop, a call of the sealing engine, a
  submission to a slice client, a request written to the proxy (by its JSON RPC id), the
  start of a goroutine that submits to the proxy, and sends and receives on the update
  channel.
\<close>

datatype colour = Plain | Red | Yellow | Blue

datatype event =
    Log string
  | LogMining colour colour colour
  | Sleep int
  | Dial string
  | CloseCh nat
  | MakeCh nat
  | Seal header nat
  | Submit int header
  | SendTCP "64 word"
  | GoSendProxy header
  | Enqueue header
  | Dequeue header

text \<open>How a function that need not return normally ended.\<close>

datatype 'a outcome =
    Returned 'a
  | Fatal
  | Panic
  | Blocked


section \<open>Loops\<close>

text \<open>
  A Go \<^verbatim>\<open>for\<close> loop: the body maps the loop state either to the state of the next
  iteration (\<open>Inl\<close>) or to the value the loop is left with (\<open>Inr\<close>: the condition failed, a
  \<^verbatim>\<open>break\<close>, a \<^verbatim>\<open>return\<close>, a fatal exit). A loop that runs forever has the value \<open>None\<close>.
\<close>

partial_function (option) go_loop :: "('s \<Rightarrow> 's + 'r) \<Rightarrow> 's \<Rightarrow> 'r option" where
  "go_loop body s = (case body s of Inl s' \<Rightarrow> go_loop body s' | Inr r \<Rightarrow> Some r)"

text \<open>The same loop cut off after \<open>k\<close> iterations: \<open>Inl\<close> is the state it is still running in.\<close>

fun run_steps :: "('s \<Rightarrow> 's + 'r) \<Rightarrow> nat \<Rightarrow> 's \<Rightarrow> 's + 'r" where
  "run_steps body 0 s = Inl s"
| "run_steps body (Suc k) s =
     (case body s of Inl s' \<Rightarrow> run_steps body k s' | Inr r \<Rightarrow> Inr r)"

section \<open>The profiling port: \<^verbatim>\<open>EnablePprof\<close>\<close>






section \<open>The request-id counter: \<^verbatim>\<open>incrementLatestID\<close>\<close>

text \<open>
  \<^verbatim>\<open>cur := m.latestId; m.latestId += 1; return cur\<close> on the \<^verbatim>\<open>uint64\<close> field: the
  value returned and the new value of the field.
\<close>

definition incrementLatestID :: "64 word \<Rightarrow> 64 word \<times> 64 word" where
  "incrementLatestID latestId = (let cur = latestId in (cur, latestId + 1))"

text \<open>\<open>n\<close> calls made one after the other: the ids returned, in order, and the final field.\<close>

fun issue :: "nat \<Rightarrow> 64 word \<Rightarrow> 64 word list \<times> 64 word" where
  "issue 0 latestId = ([], latestId)"
| "issue (Suc n) latestId =
     (let (cur, latestId') = incrementLatestID latestId;
          (ids, latestId'') = issue n latestId'
      in (cur # ids, latestId''))"

text \<open>
  Callers that overlap. The function takes no lock and uses no atomic operation, so the
  goroutines inside it interleave statement by statement. A caller is at statement
  \<open>pc\<close> (0: before \<^verbatim>\<open>cur := m.latestId\<close>, 1: before \<^verbatim>\<open>m.latestId += 1\<close>, 2: before
  \<^verbatim>\<open>return cur\<close>, 3: returned) and holds its local \<open>cur\<close>. The increment statement is
  taken as one step, which is more than Go promises for it.
\<close>

record caller =
  pc :: nat
  cur :: "64 word"

definition caller_step :: "64 word \<times> caller \<Rightarrow> 64 word \<times> caller" where
  "caller_step mc =
     (let (latestId, c) = mc in
      if pc c = 0 then (latestId, c\<lparr>pc := 1, cur := latestId\<rparr>)
      else if pc c = 1 then (latestId + 1, c\<lparr>pc := 2\<rparr>)
      else if pc c = 2 then (latestId, c\<lparr>pc := 3\<rparr>)
      else (latestId, c))"

text \<open>
  A schedule names, step by step, the caller that runs its next statement; a name outside
  the list of callers is a step of some other goroutine and changes nothing here.
\<close>

fun interleave :: "nat list \<Rightarrow> 64 word \<times> caller list \<Rightarrow> 64 word \<times> caller list" where
  "interleave [] st = st"
| "interleave (i # sched) (latestId, cs) =
     (if i < length cs
      then (let (latestId', c') = caller_step (latestId, cs ! i)
            in interleave sched (latestId', cs[i := c']))
      else interleave sched (latestId, cs))"

definition new_caller :: caller where
  "new_caller = \<lparr>pc = 0, cur = 0\<rparr>"

text \<open>The ids handed out so far: the \<open>cur\<close> of each caller that has returned.\<close>

definition returned_ids :: "64 word \<times> caller list \<Rightarrow> 64 word list" where
  "returned_ids st = map cur (filter (\<lambda>c. pc c = 3) (snd st))"

section \<open>The result loop: \<^verbatim>\<open>resultLoop\<close> and \<^verbatim>\<open>sendMinedHeaderNodes\<close>\<close>

text \<open>
  \<^verbatim>\<open>m.sliceClients[order].ReceiveMinedHeader(ctx, header)\<close>: the table has
  \<open>HierarchyDepth\<close> slots and indexing outside it panics. The parameter \<open>receive\<close> is the
  answer of the node of a tier to a header: an error or none.
\<close>

definition sendMinedHeaderNodes ::
  "(int \<Rightarrow> header \<Rightarrow> string option) \<Rightarrow> int \<Rightarrow> header \<Rightarrow> (event list \<times> string option) outcome" where
  "sendMinedHeaderNodes receive order header =
     (if 0 \<le> order \<and> order < HierarchyDepth
      then Returned ([Submit order header], receive order header)
      else Panic)"

text \<open>
  The inner loop \<^verbatim>\<open>for i := common.HierarchyDepth - 1; i >= order; i--\<close>. On an error the
  body calls \<^verbatim>\<open>fmt.Errorf\<close>, which only builds an error value; the value is dropped, so
  the branch adds no event, and \<^verbatim>\<open>continue\<close> goes on with the next \<open>i\<close>.
\<close>

function resultLoop_send ::
  "(int \<Rightarrow> header \<Rightarrow> string option) \<Rightarrow> int \<Rightarrow> int \<Rightarrow> header \<Rightarrow> event list \<times> unit outcome" where
  "resultLoop_send receive i order header =
     (if i \<ge> order then
        (case sendMinedHeaderNodes receive i header of
           Returned (evs, err) \<Rightarrow>
             (let (rest, st) = resultLoop_send receive (i - 1) order header
              in (evs @ (if err \<noteq> None then [] else []) @ rest, st))
         | _ \<Rightarrow> ([], Panic))
      else ([], Returned ()))"
  by pat_completeness auto
termination
  by (relation "measure (\<lambda>(receive, i, order, header). nat (i - order + 1))") auto

text \<open>The closing \<^verbatim>\<open>switch order\<close>: one classification line, or none for another order.\<close>

definition classify :: "int \<Rightarrow> event list" where
  "classify order =
     (if order = PRIME_CTX then [Log ''PRIME block : '']
      else if order = REGION_CTX then [Log ''REGION block: '']
      else if order = ZONE_CTX then [Log ''ZONE block  : '']
      else [])"

text \<open>
  \<^verbatim>\<open>resultLoop\<close> on the headers that arrive on the result channel, in order. \<open>CalcOrder\<close>
  is the engine's answer for a header: an error, or the order. With no header left the
  loop is blocked in its receive. On a \<^verbatim>\<open>CalcOrder\<close> error the source logs and executes
  \<^verbatim>\<open>return\<close>.
\<close>

fun resultLoop ::
  "config \<Rightarrow> (header \<Rightarrow> string + int) \<Rightarrow> (int \<Rightarrow> header \<Rightarrow> string option) \<Rightarrow> header list
     \<Rightarrow> event list \<times> unit outcome" where
  "resultLoop config CalcOrder receive [] = ([], Blocked)"
| "resultLoop config CalcOrder receive (header # pending) =
     (case CalcOrder header of
        Inl err \<Rightarrow> ([Log ''Mined block had invalid order''], Returned ())
      | Inr order \<Rightarrow>
          (let (sent, st) =
                 (if \<not> Proxy config
                  then resultLoop_send receive (HierarchyDepth - 1) order header
                  else ([GoSendProxy header], Returned ()))
           in case st of
                Returned _ \<Rightarrow>
                  (let (later, st') = resultLoop config CalcOrder receive pending
                   in (sent @ classify order @ later, st'))
              | _ \<Rightarrow> (sent, st)))"


text \<open>The log lines of a trace.\<close>

fun logged :: "event list \<Rightarrow> string list" where
  "logged [] = []"
| "logged (Log msg # es) = msg # logged es"
| "logged (e # es) = logged es"

section \<open>The mining loop: \<^verbatim>\<open>miningLoop\<close>\<close>

text \<open>
  The variables the loop owns: its local \<^verbatim>\<open>stopCh\<close> (\<open>None\<close> is \<^verbatim>\<open>nil\<close>; a channel is
  named by the number of the \<^verbatim>\<open>make\<close> that allocated it, \<open>nextCh\<close> counting them) and the
  field \<^verbatim>\<open>previousNumber\<close>.
\<close>

record mining_state =
  stopCh :: "nat option"
  nextCh :: nat
  previousNumber :: "64 word list"

text \<open>
  What one iteration takes from outside: the header received on the update channel, the
  clock reading \<^verbatim>\<open>uint64(time.Now().Unix())\<close>, and the error \<^verbatim>\<open>Seal\<close> returns, if any.
\<close>

record update =
  received :: header
  now :: "64 word"
  sealErr :: "string option"

text \<open>The closure \<^verbatim>\<open>interrupt\<close>: close the stop channel if there is one, and forget it.\<close>

definition interrupt :: "mining_state \<Rightarrow> mining_state \<times> event list" where
  "interrupt s =
     (case stopCh s of
        Some c \<Rightarrow> (s\<lparr>stopCh := None\<rparr>, [CloseCh c])
      | None \<Rightarrow> (s, []))"

text \<open>The colours of the three numbers in the log line, chosen by the first level that changed.\<close>

definition colours :: "64 word list \<Rightarrow> 64 word list \<Rightarrow> event" where
  "colours number previous =
     (if number ! 0 \<noteq> previous ! 0 then LogMining Red Red Red
      else if number ! 1 \<noteq> previous ! 1 then LogMining Plain Yellow Yellow
      else if number ! 2 \<noteq> previous ! 2 then LogMining Plain Plain Blue
      else LogMining Plain Plain Plain)"

definition miningLoop_body :: "mining_state \<Rightarrow> update \<Rightarrow> mining_state \<times> event list" where
  "miningLoop_body s u =
     (let header = received u;
          (s1, closed) = interrupt s;
          c = nextCh s1;
          s2 = s1\<lparr>stopCh := Some c, nextCh := Suc c\<rparr>;
          number = [NumberU64 header PRIME_CTX, NumberU64 header REGION_CTX,
                    NumberU64 header ZONE_CTX];
          line = (if number \<noteq> previousNumber s2 then [colours number (previousNumber s2)]
                  else []);
          s3 = s2\<lparr>previousNumber := number\<rparr>;
          header' = header\<lparr>htime := now u\<rparr>;
          failed = (case sealErr u of Some err \<Rightarrow> [Log ''Block sealing failed''] | None \<Rightarrow> [])
      in (s3, closed @ [MakeCh c] @ line @ [Seal header' c] @ failed))"

text \<open>
  The loop on the updates that arrive, in order; it never returns, and after the last
  update it waits in its receive, in the state given back.
\<close>

fun miningLoop :: "mining_state \<Rightarrow> update list \<Rightarrow> mining_state \<times> event list" where
  "miningLoop s [] = (s, [])"
| "miningLoop s (u # us) =
     (let (s', evs) = miningLoop_body s u;
          (s'', later) = miningLoop s' us
      in (s'', evs @ later))"

definition miningLoop_start :: mining_state where
  "miningLoop_start = \<lparr>stopCh = None, nextCh = 0, previousNumber = [0, 0, 0]\<rparr>"

text \<open>
  The seal attempts that are live after a trace: the stop channels handed to \<^verbatim>\<open>Seal\<close> and
  not closed since.
\<close>

fun live_from :: "nat list \<Rightarrow> event list \<Rightarrow> nat list" where
  "live_from L [] = L"
| "live_from L (Seal h c # es) = live_from (c # L) es"
| "live_from L (CloseCh c # es) = live_from (removeAll c L) es"
| "live_from L (e # es) = live_from L es"

definition live :: "event list \<Rightarrow> nat list" where
  "live es = live_from [] es"

text \<open>The events of a trace that act on a stop channel or call the engine.\<close>

fun sealing :: "event list \<Rightarrow> event list" where
  "sealing [] = []"
| "sealing (CloseCh c # es) = CloseCh c # sealing es"
| "sealing (MakeCh c # es) = MakeCh c # sealing es"
| "sealing (Seal h c # es) = Seal h c # sealing es"
| "sealing (e # es) = sealing es"

text \<open>
  A trace is calm from the live attempts \<open>L\<close> when there is never more than one live
  attempt along it and every \<^verbatim>\<open>Seal\<close> starts with none live.
\<close>

fun calm :: "nat list \<Rightarrow> event list \<Rightarrow> bool" where
  "calm L [] = (length L \<le> 1)"
| "calm L (Seal h c # es) = (L = [] \<and> calm [c] es)"
| "calm L (CloseCh c # es) = (length L \<le> 1 \<and> calm (removeAll c L) es)"
| "calm L (e # es) = (length L \<le> 1 \<and> calm L es)"

text \<open>The live attempts are tracked by the loop: there is none, or the one of \<^verbatim>\<open>stopCh\<close>.\<close>

definition tracked :: "mining_state \<Rightarrow> nat list \<Rightarrow> bool" where
  "tracked s L = (L = [] \<or> (\<exists>c. stopCh s = Some c \<and> L = [c]))"

text \<open>
  What the \<open>i\<close>-th pass of a run over the updates \<open>us\<close> does to the stop channels, for
  a run that starts with the stop channel \<open>stop\<close> and has made \<open>n\<close> channels before.
\<close>

definition pass_events :: "nat option \<Rightarrow> nat \<Rightarrow> update list \<Rightarrow> nat \<Rightarrow> event list" where
  "pass_events stop n us i =
     (if i = 0 then (case stop of Some c \<Rightarrow> [CloseCh c] | None \<Rightarrow> [])
      else [CloseCh (n + i - 1)])
     @ [MakeCh (n + i), Seal ((received (us ! i))\<lparr>htime := now (us ! i)\<rparr>) (n + i)]"

section \<open>Connecting: \<^verbatim>\<open>connectToProxy\<close> and \<^verbatim>\<open>connectToSlice\<close>\<close>

text \<open>
  A connection handle is a number. The network is a parameter: \<open>dial n url\<close> is what the
  \<open>n\<close>-th dial of the run (\<^verbatim>\<open>util.NewMinerConn\<close> or \<^verbatim>\<open>ethclient.Dial\<close>) returns when it is
  made to \<open>url\<close>, as Go's pair of a client (\<open>None\<close> is \<^verbatim>\<open>nil\<close>) and an error (\<open>None\<close> is
  \<^verbatim>\<open>nil\<close>).
\<close>

type_synonym client = nat

type_synonym dialer = "nat \<Rightarrow> string \<Rightarrow> client option \<times> string option"

text \<open>The durations a trace sleeps for, in order.\<close>

fun sleeps :: "event list \<Rightarrow> int list" where
  "sleeps [] = []"
| "sleeps (Sleep d # es) = d # sleeps es"
| "sleeps (e # es) = sleeps es"

record proxy_conn =
  proxyConnected :: bool
  proxyClient :: "client option"
  proxyDials :: nat
  proxyTrace :: "event list"

text \<open>
  One pass of \<^verbatim>\<open>for !proxyConnected { ... }\<close>: the loop condition, then the \<^verbatim>\<open>if\<close>. With an
  empty \<^verbatim>\<open>config.ProxyURL\<close> the pass changes nothing.
\<close>

definition connectToProxy_body :: "config \<Rightarrow> dialer \<Rightarrow> proxy_conn \<Rightarrow> proxy_conn + proxy_conn" where
  "connectToProxy_body config dial s =
     (if \<not> proxyConnected s then
        Inl (if ProxyURL config \<noteq> [] \<and> \<not> proxyConnected s then
               (let (c, err) = dial (proxyDials s) (ProxyURL config);
                    s1 = s\<lparr>proxyClient := c, proxyDials := Suc (proxyDials s),
                           proxyTrace := proxyTrace s @ [Dial (ProxyURL config)]\<rparr>
                in if err \<noteq> None
                   then s1\<lparr>proxyTrace := proxyTrace s1 @ [Log ''Unable to connect to proxy: '']\<rparr>
                   else s1\<lparr>proxyConnected := True\<rparr>)
             else s)
      else Inr s)"

definition connectToProxy_start :: proxy_conn where
  "connectToProxy_start =
     \<lparr>proxyConnected = False, proxyClient = None, proxyDials = 0, proxyTrace = []\<rparr>"

text \<open>\<^verbatim>\<open>connectToProxy\<close>: the state the loop ends in holds the client returned.\<close>

definition connectToProxy :: "config \<Rightarrow> dialer \<Rightarrow> proxy_conn option" where
  "connectToProxy config dial = go_loop (connectToProxy_body config dial) connectToProxy_start"

record slice_conn =
  primeConnected :: bool
  regionConnected :: bool
  zoneConnected :: bool
  clients :: "client option list"
  sliceDials :: nat
  sliceTrace :: "event list"

text \<open>
  \<^verbatim>\<open>clients[ctx], err = ethclient.Dial(url)\<close>: the slot is assigned whatever comes back, and
  the error is handed on.
\<close>

definition dial_into :: "dialer \<Rightarrow> int \<Rightarrow> string \<Rightarrow> slice_conn \<Rightarrow> slice_conn \<times> string option" where
  "dial_into dial ctx url s =
     (let (c, err) = dial (sliceDials s) url
      in (s\<lparr>clients := (clients s)[nat ctx := c], sliceDials := Suc (sliceDials s),
            sliceTrace := sliceTrace s @ [Dial url]\<rparr>, err))"

definition unable :: "slice_conn \<Rightarrow> slice_conn" where
  "unable s = s\<lparr>sliceTrace := sliceTrace s @ [Log ''Unable to connect to node:'']\<rparr>"

text \<open>
  The three \<^verbatim>\<open>if\<close> blocks of the loop of \<^verbatim>\<open>connectToSlice\<close>, one per tier: dial when the
  URL is not empty and the tier is not connected yet, log on an error, set the flag
  otherwise.
\<close>

definition connect_prime :: "config \<Rightarrow> dialer \<Rightarrow> slice_conn \<Rightarrow> slice_conn" where
  "connect_prime config dial s =
     (if PrimeURL config \<noteq> [] \<and> \<not> primeConnected s then
        (let (s', err) = dial_into dial PRIME_CTX (PrimeURL config) s
         in if err \<noteq> None then unable s' else s'\<lparr>primeConnected := True\<rparr>)
      else s)"

definition connect_region :: "dialer \<Rightarrow> string \<Rightarrow> slice_conn \<Rightarrow> slice_conn" where
  "connect_region dial regionURL s =
     (if regionURL \<noteq> [] \<and> \<not> regionConnected s then
        (let (s', err) = dial_into dial REGION_CTX regionURL s
         in if err \<noteq> None then unable s' else s'\<lparr>regionConnected := True\<rparr>)
      else s)"

definition connect_zone :: "dialer \<Rightarrow> string \<Rightarrow> slice_conn \<Rightarrow> slice_conn" where
  "connect_zone dial zoneURL s =
     (if zoneURL \<noteq> [] \<and> \<not> zoneConnected s then
        (let (s', err) = dial_into dial ZONE_CTX zoneURL s
         in if err \<noteq> None then unable s' else s'\<lparr>zoneConnected := True\<rparr>)
      else s)"

text \<open>
  One pass of the loop of \<^verbatim>\<open>connectToSlice\<close>. The conditions of the Region and Zone
  blocks index the URL tables before they look at the flag, so an index outside a table
  panics in the first pass.
\<close>

definition connectToSlice_body ::
  "config \<Rightarrow> dialer \<Rightarrow> slice_conn \<Rightarrow> slice_conn + slice_conn outcome" where
  "connectToSlice_body config dial s =
     (if \<not> primeConnected s \<or> \<not> regionConnected s \<or> \<not> zoneConnected s then
        (let loc = Location config;
             s1 = connect_prime config dial s
         in case go_index (RegionURLs config) (Region loc) of
              None \<Rightarrow> Inr Panic
            | Some regionURL \<Rightarrow>
                (let s2 = connect_region dial regionURL s1
                 in case go_index (ZoneURLs config) (Region loc) of
                      None \<Rightarrow> Inr Panic
                    | Some zoneURLs \<Rightarrow>
                        (case go_index zoneURLs (Zone loc) of
                           None \<Rightarrow> Inr Panic
                         | Some zoneURL \<Rightarrow> Inl (connect_zone dial zoneURL s2))))
      else Inr (Returned s))"

definition connectToSlice_start :: slice_conn where
  "connectToSlice_start =
     \<lparr>primeConnected = False, regionConnected = False, zoneConnected = False,
      clients = [None, None, None], sliceDials = 0, sliceTrace = []\<rparr>"

definition connectToSlice :: "config \<Rightarrow> dialer \<Rightarrow> slice_conn outcome option" where
  "connectToSlice config dial = go_loop (connectToSlice_body config dial) connectToSlice_start"

section \<open>Retrying: the fetch and submit loops\<close>

text \<open>
  \<^verbatim>\<open>retryDelay *= 2; if retryDelay > maxRetryDelay { retryDelay = maxRetryDelay }\<close> on a
  Go \<^verbatim>\<open>int\<close>.
\<close>

definition backoff :: "int \<Rightarrow> int" where
  "backoff retryDelay =
     (let retryDelay = go_int (retryDelay * 2)
      in if retryDelay > maxRetryDelay then maxRetryDelay else retryDelay)"

text \<open>\<^verbatim>\<open>time.Sleep(time.Duration(retryDelay) * time.Second)\<close>.\<close>

definition sleep_for :: "int \<Rightarrow> event" where
  "sleep_for retryDelay = Sleep (go_int (retryDelay * Second))"

text \<open>
  The state of a retry loop: its local \<^verbatim>\<open>retryDelay\<close>, the number of passes made (the
  index into the answers of the network), the fields \<^verbatim>\<open>m.latestId\<close> and \<^verbatim>\<open>m.updateCh\<close>
  (the headers queued on the channel, oldest first), and the trace. The capacity of the
  channel is left out: a send to it is taken to go through.
\<close>

record retry_state =
  retryDelay :: int
  attempts :: nat
  latestId :: "64 word"
  updateCh :: "header list"
  trace :: "event list"

definition retry_start :: "64 word \<Rightarrow> header list \<Rightarrow> retry_state" where
  "retry_start firstId ch =
     \<lparr>retryDelay = 1, attempts = 0, latestId = firstId, updateCh = ch, trace = []\<rparr>"

text \<open>
  \<^verbatim>\<open>fetchPendingHeaderNode\<close>. \<open>GetPendingHeader n\<close> is the answer of the zone node to the
  \<open>n\<close>-th call: an error, or a header.
\<close>

definition fetchPendingHeaderNode_body ::
  "(nat \<Rightarrow> string + header) \<Rightarrow> retry_state \<Rightarrow> retry_state + retry_state" where
  "fetchPendingHeaderNode_body GetPendingHeader s =
     (case GetPendingHeader (attempts s) of
        Inl err \<Rightarrow>
          Inl (s\<lparr>retryDelay := backoff (retryDelay s), attempts := Suc (attempts s),
                 trace := trace s @ [Log ''Pending block not found error: '',
                                     sleep_for (retryDelay s)]\<rparr>)
      | Inr header \<Rightarrow>
          Inr (s\<lparr>attempts := Suc (attempts s), updateCh := updateCh s @ [header],
                 trace := trace s @ [Enqueue header]\<rparr>))"

definition fetchPendingHeaderNode ::
  "(nat \<Rightarrow> string + header) \<Rightarrow> 64 word \<Rightarrow> header list \<Rightarrow> retry_state option" where
  "fetchPendingHeaderNode GetPendingHeader firstId ch =
     go_loop (fetchPendingHeaderNode_body GetPendingHeader) (retry_start firstId ch)"

text \<open>
  \<^verbatim>\<open>sendMinedHeaderProxy\<close>. \<open>MakeRequest n\<close> and \<open>SendTCPRequest n\<close> are the errors, if
  any, of building and of writing the request in the \<open>n\<close>-th pass. A request that cannot
  be built ends the process (\<^verbatim>\<open>log.Fatalf\<close>). After a failed send the pass sleeps, backs
  off, and then still logs \<^verbatim>\<open>Sent mined header\<close>; after a good one it breaks.
\<close>

definition sendMinedHeaderProxy_body ::
  "(nat \<Rightarrow> string option) \<Rightarrow> (nat \<Rightarrow> string option) \<Rightarrow> header \<Rightarrow> retry_state
     \<Rightarrow> retry_state + unit outcome \<times> retry_state" where
  "sendMinedHeaderProxy_body MakeRequest SendTCPRequest header s =
     (let (reqId, latestId') = incrementLatestID (latestId s);
          s1 = s\<lparr>latestId := latestId', attempts := Suc (attempts s)\<rparr>
      in case MakeRequest (attempts s) of
           Some err \<Rightarrow>
             Inr (Fatal, s1\<lparr>trace := trace s
                    @ [Log ''Could not create json message with header: '']\<rparr>)
         | None \<Rightarrow>
             (case SendTCPRequest (attempts s) of
                Some err \<Rightarrow>
                  Inl (s1\<lparr>retryDelay := backoff (retryDelay s),
                          trace := trace s @ [SendTCP reqId,
                            Log ''Unable to send pending header to node: '',
                            sleep_for (retryDelay s), Log ''Sent mined header'']\<rparr>)
              | None \<Rightarrow> Inr (Returned (), s1\<lparr>trace := trace s @ [SendTCP reqId]\<rparr>)))"

definition sendMinedHeaderProxy ::
  "(nat \<Rightarrow> string option) \<Rightarrow> (nat \<Rightarrow> string option) \<Rightarrow> header \<Rightarrow> 64 word \<Rightarrow> header list
     \<Rightarrow> (unit outcome \<times> retry_state) option" where
  "sendMinedHeaderProxy MakeRequest SendTCPRequest header firstId ch =
     go_loop (sendMinedHeaderProxy_body MakeRequest SendTCPRequest header) (retry_start firstId ch)"

text \<open>
  \<^verbatim>\<open>fetchPendingHeaderProxy\<close>. The request is written, and then, before the error of the
  write is looked at, a header is received from the update channel: \<open>arrivals n\<close> are the
  headers the listener has put on the channel by the time the receive of the \<open>n\<close>-th pass
  is served, and with nothing on the channel the receive blocks. On an error the pass
  sleeps and backs off; otherwise it sends the header back to the channel and breaks.
\<close>

definition fetchPendingHeaderProxy_body ::
  "(nat \<Rightarrow> string option) \<Rightarrow> (nat \<Rightarrow> string option) \<Rightarrow> (nat \<Rightarrow> header list) \<Rightarrow> retry_state
     \<Rightarrow> retry_state + unit outcome \<times> retry_state" where
  "fetchPendingHeaderProxy_body MakeRequest SendTCPRequest arrivals s =
     (let (reqId, latestId') = incrementLatestID (latestId s);
          s1 = s\<lparr>latestId := latestId', attempts := Suc (attempts s)\<rparr>
      in case MakeRequest (attempts s) of
           Some err \<Rightarrow>
             Inr (Fatal, s1\<lparr>trace := trace s
                    @ [Log ''Unable to make pending header request: '']\<rparr>)
         | None \<Rightarrow>
             (let err = SendTCPRequest (attempts s)
              in case updateCh s @ arrivals (attempts s) of
                   [] \<Rightarrow> Inr (Blocked, s1\<lparr>trace := trace s @ [SendTCP reqId]\<rparr>)
                 | header # queued \<Rightarrow>
                     (if err \<noteq> None then
                        Inl (s1\<lparr>retryDelay := backoff (retryDelay s), updateCh := queued,
                                trace := trace s @ [SendTCP reqId, Dequeue header,
                                  Log ''Pending block not found error: '',
                                  sleep_for (retryDelay s)]\<rparr>)
                      else
                        Inr (Returned (),
                             s1\<lparr>updateCh := queued @ [header],
                                trace := trace s @ [SendTCP reqId, Dequeue header,
                                  Enqueue header]\<rparr>))))"

definition fetchPendingHeaderProxy ::
  "(nat \<Rightarrow> string option) \<Rightarrow> (nat \<Rightarrow> string option) \<Rightarrow> (nat \<Rightarrow> header list) \<Rightarrow> 64 word
     \<Rightarrow> header list \<Rightarrow> (unit outcome \<times> retry_state) option" where
  "fetchPendingHeaderProxy MakeRequest SendTCPRequest arrivals firstId ch =
     go_loop (fetchPendingHeaderProxy_body MakeRequest SendTCPRequest arrivals)
       (retry_start firstId ch)"

text \<open>The headers a trace takes from, and puts on, the update channel.\<close>

fun dequeued :: "event list \<Rightarrow> header list" where
  "dequeued [] = []"
| "dequeued (Dequeue h # es) = h # dequeued es"
| "dequeued (e # es) = dequeued es"

fun enqueued :: "event list \<Rightarrow> header list" where
  "enqueued [] = []"
| "enqueued (Enqueue h # es) = h # enqueued es"
| "enqueued (e # es) = enqueued es"

text \<open>The headers a run took, the headers it put back, and the channel it left.\<close>

definition channel_view ::
  "(unit outcome \<times> retry_state) option \<Rightarrow> (header list \<times> header list \<times> header list) option" where
  "channel_view run =
     map_option (\<lambda>(r, s). (dequeued (trace s), enqueued (trace s), updateCh s)) run"

text \<open>The delay of the spec, in seconds: \<open>min (2 ^ n) cap\<close> with the cap of four hours.\<close>

definition delay :: "nat \<Rightarrow> int" where
  "delay n = min (2 ^ n) 14400"

text \<open>The first \<open>k\<close> delays of the spec, in nanoseconds.\<close>

definition backoffs :: "nat \<Rightarrow> int list" where
  "backoffs k = map (\<lambda>n. delay n * Second) [0..<k]"

section \<open>The hashrate display: \<^verbatim>\<open>toSiUnits\<close>\<close>

text \<open>
  The values of a \<^verbatim>\<open>float64\<close> (IEEE 754 binary64): a finite number, given by the rational
  it stands for (\<open>Num 0\<close> is \<open>+0\<close>), the negative zero, the two infinities and NaN.
\<close>

datatype float64 = Num rat | NegZero | PosInf | NegInf | NaN

text \<open>The position of the leading bit of a natural number: \<open>2 ^ ilog2 n \<le> n < 2 ^ (ilog2 n + 1)\<close>.\<close>

function ilog2 :: "nat \<Rightarrow> nat" where
  "ilog2 n = (if n < 2 then 0 else Suc (ilog2 (n div 2)))"
  by pat_completeness auto
termination
  by (relation "measure id") auto

text \<open>Rounding a rational to the nearest integer, a tie going to the even one.\<close>

definition rne :: "rat \<Rightarrow> int" where
  "rne z =
     (let f = \<lfloor>z\<rfloor>; r = z - of_int f
      in if r < 1 / 2 then f
         else if r > 1 / 2 then f + 1
         else if even f then f else f + 1)"

text \<open>
  The binary64 number nearest to a rational \<open>y \<ge> 1\<close> (ties to even), as the hardware
  rounds a result: for \<open>2 ^ e \<le> y < 2 ^ (e + 1)\<close> the binary64 numbers around \<open>y\<close> are the
  multiples of \<open>2 ^ e / 2 ^ 52\<close>, a number of 53 significant bits.
\<close>

definition round_normal :: "rat \<Rightarrow> rat" where
  "round_normal y =
     (let e = ilog2 (nat \<lfloor>y\<rfloor>); ulp = 2 ^ e / 2 ^ 52
      in of_int (rne (y / ulp)) * ulp)"

text \<open>
  \<^verbatim>\<open>reduced /= 1000\<close> for a finite \<open>reduced\<close> of at least 1000: the quotient, rounded. It is
  at least 1 and smaller than \<open>reduced\<close>, so it neither underflows nor overflows.
\<close>

definition div1000 :: "rat \<Rightarrow> rat" where
  "div1000 q = round_normal (q / 1000)"

text \<open>
  One pass of the loop of \<^verbatim>\<open>toSiUnits\<close> on \<open>(reduced, order)\<close>. The comparison
  \<^verbatim>\<open>reduced >= 1000\<close> holds for \<open>+Inf\<close>, whose quotient is \<open>+Inf\<close> again, and fails for NaN,
  \<open>-Inf\<close> and \<open>-0\<close>. (\<open>order\<close> is a Go \<^verbatim>\<open>int\<close>; a finite rate is divided at most 103
  times, so it does not wrap.)
\<close>

fun toSiUnits_body :: "float64 \<times> int \<Rightarrow> float64 \<times> int + float64 \<times> int" where
  "toSiUnits_body (Num q, order) =
     (if q \<ge> 1000 then Inl (Num (div1000 q), order + 3) else Inr (Num q, order))"
| "toSiUnits_body (PosInf, order) = Inl (PosInf, order + 3)"
| "toSiUnits_body (reduced, order) = Inr (reduced, order)"

text \<open>
  The closure \<^verbatim>\<open>toSiUnits\<close> of \<^verbatim>\<open>hashratePrinter\<close>: the loop, then the \<^verbatim>\<open>switch\<close> on the
  order. \<open>None\<close> is a call that never returns.
\<close>

definition toSiUnits :: "float64 \<Rightarrow> (float64 \<times> string) option" where
  "toSiUnits hr =
     (case go_loop toSiUnits_body (hr, 0) of
        None \<Rightarrow> None
      | Some (reduced, order) \<Rightarrow>
          Some (if order = 3 then (reduced, ''Kh/s'')
                else if order = 6 then (reduced, ''Mh/s'')
                else if order = 9 then (reduced, ''Gh/s'')
                else if order = 12 then (reduced, ''Th/s'')
                else (hr, ''h/s'')))"

section \<open>Sample inputs\<close>

definition header0 :: header where
  "header0 = \<lparr>numberPrime = 1, numberRegion = 2, numberZone = 3, htime = 0\<rparr>"

definition direct_config :: config where
  "direct_config =
     \<lparr>Proxy = False, ProxyURL = [], PrimeURL = ''ws://127.0.0.1:8547'',
      RegionURLs = [''ws://127.0.0.1:8579''], ZoneURLs = [[''ws://127.0.0.1:8611'']],
      Location = [0, 0]\<rparr>"

definition proxy_config :: config where
  "proxy_config =
     \<lparr>Proxy = True, ProxyURL = ''127.0.0.1:3333'', PrimeURL = [], RegionURLs = [[]],
      ZoneURLs = [[[]]], Location = [0, 0]\<rparr>"

definition flaky_dial :: dialer where
  "flaky_dial n url = (if n < 2 then (None, Some ''connection refused'') else (Some 7, None))"

definition node_answers :: "nat \<Rightarrow> string + header" where
  "node_answers n = (if n < 3 then Inl ''pending block not found'' else Inr header0)"

definition send_answers :: "nat \<Rightarrow> string option" where
  "send_answers n = (if n < 15 then Some ''broken pipe'' else None)"

definition header1 :: header where
  "header1 = header0\<lparr>numberZone := 4\<rparr>"

definition never_fails :: "nat \<Rightarrow> string option" where
  "never_fails n = None"

definition first_send_fails :: "nat \<Rightarrow> string option" where
  "first_send_fails n = (if n = 0 then Some ''broken pipe'' else None)"

definition two_arrivals :: "nat \<Rightarrow> header list" where
  "two_arrivals n = (if n = 0 then [header0] else [header1])"

definition update1 :: update where
  "update1 = \<lparr>received = header0, now = 100, sealErr = None\<rparr>"

definition update2 :: update where
  "update2 = \<lparr>received = header0\<lparr>numberZone := 4\<rparr>, now = 101, sealErr = None\<rparr>"

section \<open>Properties of the profiling port\<close>


lemmas ctx_defs = PRIME_CTX_def REGION_CTX_def ZONE_CTX_def HierarchyDepth_def















section \<open>Properties of loops\<close>

lemma go_loop_run: "run_steps body k s = Inr r \<Longrightarrow> go_loop body s = Some r"
proof (induction k arbitrary: s)
  case 0
  then show ?case by simp
next
  case (Suc k)
  show ?case
  proof (cases "body s")
    case (Inl s')
    with Suc.prems have "run_steps body k s' = Inr r" by simp
    then have "go_loop body s' = Some r" by (rule Suc.IH)
    with Inl show ?thesis by (subst go_loop.simps) simp
  next
    case (Inr r')
    with Suc.prems show ?thesis by (subst go_loop.simps) simp
  qed
qed

lemma go_loop_Some: "go_loop body s = Some r \<Longrightarrow> \<exists>k. run_steps body k s = Inr r"
proof (induction rule: go_loop.raw_induct [rotated 1, consumes 1])
  case (1 loop body s r)
  show ?case
  proof (cases "body s")
    case (Inl s')
    with 1(2) have "loop body s' = Some r" by simp
    then obtain k where "run_steps body k s' = Inr r" using 1(1) by blast
    with Inl have "run_steps body (Suc k) s = Inr r" by simp
    then show ?thesis ..
  next
    case (Inr r')
    with 1(2) have "run_steps body (Suc 0) s = Inr r" by simp
    then show ?thesis ..
  qed
qed

lemma go_loop_None: "(\<And>k. isl (run_steps body k s)) \<Longrightarrow> go_loop body s = None"
proof (rule ccontr)
  assume a: "\<And>k. isl (run_steps body k s)" and "go_loop body s \<noteq> None"
  then obtain r where "go_loop body s = Some r" by auto
  from go_loop_Some [OF this] obtain k where "run_steps body k s = Inr r" ..
  with a [of k] show False by simp
qed

lemma run_steps_add:
  "run_steps body (j + k) s
     = (case run_steps body j s of Inl s' \<Rightarrow> run_steps body k s' | Inr r \<Rightarrow> Inr r)"
  by (induction j arbitrary: s) (simp_all split: sum.split)

lemma run_steps_Suc_right:
  "run_steps body (Suc k) s
     = (case run_steps body k s of Inl s' \<Rightarrow> body s' | Inr r \<Rightarrow> Inr r)"
proof -
  have "run_steps body (k + Suc 0) s
     = (case run_steps body k s of Inl s' \<Rightarrow> run_steps body (Suc 0) s' | Inr r \<Rightarrow> Inr r)"
    by (rule run_steps_add)
  then show ?thesis by (simp split: sum.split)
qed

lemma run_steps_invariant:
  assumes "P s" and "\<And>s. P s \<Longrightarrow> \<exists>s'. body s = Inl s' \<and> P s'"
  shows "\<exists>s'. run_steps body k s = Inl s' \<and> P s'"
  using assms(1)
proof (induction k arbitrary: s)
  case 0
  then show ?case by simp
next
  case (Suc k)
  from assms(2) [OF Suc.prems] obtain s' where "body s = Inl s'" "P s'" by blast
  with Suc.IH [of s'] show ?case by simp
qed

lemma go_loop_forever:
  assumes "P s" and "\<And>s. P s \<Longrightarrow> \<exists>s'. body s = Inl s' \<and> P s'"
  shows "go_loop body s = None"
proof (rule go_loop_None)
  fix k
  from run_steps_invariant [of P s body k, OF assms] show "isl (run_steps body k s)"
    by auto
qed

lemma run_steps_preserves:
  assumes "P s"
    and "\<And>s s'. P s \<Longrightarrow> body s = Inl s' \<Longrightarrow> P s'"
    and "\<And>s r. P s \<Longrightarrow> body s = Inr r \<Longrightarrow> Q r"
  shows "(run_steps body k s = Inl s' \<longrightarrow> P s') \<and> (run_steps body k s = Inr r \<longrightarrow> Q r)"
  using assms(1)
proof (induction k arbitrary: s)
  case 0
  then show ?case by auto
next
  case (Suc k)
  show ?case
  proof (cases "body s")
    case (Inl s1)
    from assms(2) [OF Suc.prems Inl] have "P s1" .
    from Suc.IH [OF this] Inl show ?thesis by simp
  next
    case (Inr r1)
    from assms(3) [OF Suc.prems Inr] Inr show ?thesis by auto
  qed
qed

lemma sleeps_append: "sleeps (xs @ ys) = sleeps xs @ sleeps ys"
  by (induction xs rule: sleeps.induct) simp_all

section \<open>Properties of the connection loops\<close>

lemma proxy_body_fail:
  assumes "\<not> proxyConnected s" "ProxyURL config \<noteq> []"
    "snd (dial (proxyDials s) (ProxyURL config)) \<noteq> None"
  shows "\<exists>s'. connectToProxy_body config dial s = Inl s' \<and> \<not> proxyConnected s'
           \<and> proxyDials s' = Suc (proxyDials s)
           \<and> sleeps (proxyTrace s') = sleeps (proxyTrace s)"
  using assms
  by (auto simp: connectToProxy_body_def sleeps_append Let_def split: prod.split)

lemma proxy_body_ok:
  assumes "\<not> proxyConnected s" "ProxyURL config \<noteq> []"
    "snd (dial (proxyDials s) (ProxyURL config)) = None"
  shows "\<exists>s'. connectToProxy_body config dial s = Inl s' \<and> proxyConnected s'
           \<and> proxyClient s' = fst (dial (proxyDials s) (ProxyURL config))
           \<and> proxyDials s' = Suc (proxyDials s)
           \<and> sleeps (proxyTrace s') = sleeps (proxyTrace s)"
  using assms
  by (auto simp: connectToProxy_body_def sleeps_append Let_def split: prod.split)

lemma proxy_body_done: "proxyConnected s \<Longrightarrow> connectToProxy_body config dial s = Inr s"
  by (simp add: connectToProxy_body_def)

lemma proxy_fail_steps:
  assumes "ProxyURL config \<noteq> []"
  shows "\<not> proxyConnected s
     \<Longrightarrow> (\<And>j. j < k \<Longrightarrow> snd (dial (proxyDials s + j) (ProxyURL config)) \<noteq> None)
     \<Longrightarrow> \<exists>s'. run_steps (connectToProxy_body config dial) k s = Inl s' \<and> \<not> proxyConnected s'
           \<and> proxyDials s' = proxyDials s + k
           \<and> sleeps (proxyTrace s') = sleeps (proxyTrace s)"
proof (induction k arbitrary: s)
  case 0
  then show ?case by simp
next
  case (Suc k)
  from Suc.prems(2) [of 0] have "snd (dial (proxyDials s) (ProxyURL config)) \<noteq> None"
    by simp
  from proxy_body_fail [where dial = dial, OF Suc.prems(1) assms this]
  obtain s1 where s1: "connectToProxy_body config dial s = Inl s1" "\<not> proxyConnected s1"
    "proxyDials s1 = Suc (proxyDials s)" "sleeps (proxyTrace s1) = sleeps (proxyTrace s)"
    by blast
  have "\<And>j. j < k \<Longrightarrow> snd (dial (proxyDials s1 + j) (ProxyURL config)) \<noteq> None"
    using Suc.prems(2) s1(3) by (metis Suc_less_eq add_Suc add_Suc_right)
  from Suc.IH [OF s1(2) this] s1 show ?case by simp
qed

lemma proxy_returns:
  assumes url: "ProxyURL config \<noteq> []"
    and ok: "snd (dial k (ProxyURL config)) = None"
    and before: "\<And>j. j < k \<Longrightarrow> snd (dial j (ProxyURL config)) \<noteq> None"
  shows "\<exists>s'. connectToProxy config dial = Some s'
           \<and> proxyClient s' = fst (dial k (ProxyURL config))
           \<and> proxyDials s' = Suc k \<and> sleeps (proxyTrace s') = []"
proof -
  let ?body = "connectToProxy_body config dial"
  have "\<exists>s'. run_steps ?body k connectToProxy_start = Inl s' \<and> \<not> proxyConnected s'
           \<and> proxyDials s' = proxyDials connectToProxy_start + k
           \<and> sleeps (proxyTrace s') = sleeps (proxyTrace connectToProxy_start)"
    by (rule proxy_fail_steps [OF url]) (simp_all add: connectToProxy_start_def before)
  then obtain s1 where s1: "run_steps ?body k connectToProxy_start = Inl s1"
    "\<not> proxyConnected s1" "proxyDials s1 = k" "sleeps (proxyTrace s1) = []"
    by (auto simp: connectToProxy_start_def)
  from proxy_body_ok [where dial = dial and s = s1 and config = config] s1(2) url ok s1(3)
  obtain s2 where s2: "?body s1 = Inl s2" "proxyConnected s2"
    "proxyClient s2 = fst (dial k (ProxyURL config))" "proxyDials s2 = Suc k"
    "sleeps (proxyTrace s2) = sleeps (proxyTrace s1)"
    by auto
  have "run_steps ?body (Suc (Suc 0)) s1 = Inr s2"
    by (simp add: s2(1) proxy_body_done [OF s2(2)])
  then have "run_steps ?body (k + Suc (Suc 0)) connectToProxy_start = Inr s2"
    by (simp only: run_steps_add s1(1) sum.case)
  then have "connectToProxy config dial = Some s2"
    unfolding connectToProxy_def by (rule go_loop_run)
  with s2 s1(4) show ?thesis by simp
qed

lemma proxy_never_empty_url:
  assumes "ProxyURL config = []"
  shows "connectToProxy config dial = None
     \<and> run_steps (connectToProxy_body config dial) k connectToProxy_start
         = Inl connectToProxy_start"
proof
  show "connectToProxy config dial = None"
    unfolding connectToProxy_def
    by (rule go_loop_forever [where P = "\<lambda>s. \<not> proxyConnected s"])
       (simp_all add: connectToProxy_start_def connectToProxy_body_def assms)
  show "run_steps (connectToProxy_body config dial) k connectToProxy_start
          = Inl connectToProxy_start"
    by (induction k) (simp_all add: connectToProxy_start_def connectToProxy_body_def assms)
qed

lemma proxy_never_all_fail:
  assumes "\<forall>n. snd (dial n (ProxyURL config)) \<noteq> None"
  shows "connectToProxy config dial = None"
  unfolding connectToProxy_def
proof (rule go_loop_forever [where P = "\<lambda>s. \<not> proxyConnected s"])
  show "\<not> proxyConnected connectToProxy_start"
    by (simp add: connectToProxy_start_def)
next
  fix s :: proxy_conn
  assume s: "\<not> proxyConnected s"
  show "\<exists>s'. connectToProxy_body config dial s = Inl s' \<and> \<not> proxyConnected s'"
  proof (cases "ProxyURL config = []")
    case True
    with s show ?thesis by (simp add: connectToProxy_body_def)
  next
    case False
    from proxy_body_fail [where dial = dial, OF s False] assms show ?thesis by blast
  qed
qed

lemma proxy_iff:
  "(connectToProxy config dial \<noteq> None)
     = (ProxyURL config \<noteq> [] \<and> (\<exists>n. snd (dial n (ProxyURL config)) = None))"
proof
  assume r: "connectToProxy config dial \<noteq> None"
  show "ProxyURL config \<noteq> [] \<and> (\<exists>n. snd (dial n (ProxyURL config)) = None)"
  proof (rule ccontr)
    assume n: "\<not> (ProxyURL config \<noteq> [] \<and> (\<exists>n. snd (dial n (ProxyURL config)) = None))"
    show False
    proof (cases "ProxyURL config = []")
      case True
      with r show False by (simp add: proxy_never_empty_url)
    next
      case False
      with n have "\<forall>n. snd (dial n (ProxyURL config)) \<noteq> None" by simp
      then have "connectToProxy config dial = None" by (rule proxy_never_all_fail)
      with r show False by simp
    qed
  qed
next
  assume a: "ProxyURL config \<noteq> [] \<and> (\<exists>n. snd (dial n (ProxyURL config)) = None)"
  then obtain n where n: "snd (dial n (ProxyURL config)) = None" by blast
  define k where "k = (LEAST n. snd (dial n (ProxyURL config)) = None)"
  have ok: "snd (dial k (ProxyURL config)) = None"
    unfolding k_def using n by (rule LeastI)
  have before: "\<And>j. j < k \<Longrightarrow> snd (dial j (ProxyURL config)) \<noteq> None"
    unfolding k_def by (rule not_less_Least)
  from proxy_returns [where dial = dial and k = k and config = config, OF conjunct1 [OF a] ok before]
  show "connectToProxy config dial \<noteq> None" by auto
qed

lemma proxy_body_sleeps:
  "connectToProxy_body config dial s = Inl s' \<Longrightarrow> sleeps (proxyTrace s') = sleeps (proxyTrace s)"
  by (auto simp: connectToProxy_body_def sleeps_append Let_def split: prod.splits if_splits)

lemma proxy_no_sleep:
  "(run_steps (connectToProxy_body config dial) k connectToProxy_start = Inl s
      \<longrightarrow> sleeps (proxyTrace s) = [])
   \<and> (run_steps (connectToProxy_body config dial) k connectToProxy_start = Inr r
      \<longrightarrow> sleeps (proxyTrace r) = [])"
proof (rule run_steps_preserves [where P = "\<lambda>s. sleeps (proxyTrace s) = []"])
  show "sleeps (proxyTrace connectToProxy_start) = []"
    by (simp add: connectToProxy_start_def)
next
  fix s s' :: proxy_conn
  assume "sleeps (proxyTrace s) = []" "connectToProxy_body config dial s = Inl s'"
  then show "sleeps (proxyTrace s') = []" by (simp add: proxy_body_sleeps)
next
  fix s r :: proxy_conn
  assume "sleeps (proxyTrace s) = []" "connectToProxy_body config dial s = Inr r"
  then show "sleeps (proxyTrace r) = []"
    by (auto simp: connectToProxy_body_def split: if_splits)
qed

lemma dial_into_fields:
  "primeConnected (fst (dial_into dial ctx url s)) = primeConnected s"
  "regionConnected (fst (dial_into dial ctx url s)) = regionConnected s"
  "zoneConnected (fst (dial_into dial ctx url s)) = zoneConnected s"
  "sleeps (sliceTrace (fst (dial_into dial ctx url s))) = sleeps (sliceTrace s)"
  by (simp_all add: dial_into_def sleeps_append split: prod.split)

lemma unable_fields:
  "primeConnected (unable s) = primeConnected s"
  "regionConnected (unable s) = regionConnected s"
  "zoneConnected (unable s) = zoneConnected s"
  "sleeps (sliceTrace (unable s)) = sleeps (sliceTrace s)"
  by (simp_all add: unable_def sleeps_append)

lemma connect_prime_fields:
  "regionConnected (connect_prime config dial s) = regionConnected s"
  "zoneConnected (connect_prime config dial s) = zoneConnected s"
  "sleeps (sliceTrace (connect_prime config dial s)) = sleeps (sliceTrace s)"
  "PrimeURL config = [] \<Longrightarrow> primeConnected (connect_prime config dial s) = primeConnected s"
  using dial_into_fields [of dial PRIME_CTX "PrimeURL config" s]
  by (simp_all add: connect_prime_def case_prod_beta unable_fields Let_def)

lemma connect_region_fields:
  "primeConnected (connect_region dial url s) = primeConnected s"
  "zoneConnected (connect_region dial url s) = zoneConnected s"
  "sleeps (sliceTrace (connect_region dial url s)) = sleeps (sliceTrace s)"
  "url = [] \<Longrightarrow> regionConnected (connect_region dial url s) = regionConnected s"
  using dial_into_fields [of dial REGION_CTX url s]
  by (simp_all add: connect_region_def case_prod_beta unable_fields Let_def)

lemma connect_zone_fields:
  "primeConnected (connect_zone dial url s) = primeConnected s"
  "regionConnected (connect_zone dial url s) = regionConnected s"
  "sleeps (sliceTrace (connect_zone dial url s)) = sleeps (sliceTrace s)"
  "url = [] \<Longrightarrow> zoneConnected (connect_zone dial url s) = zoneConnected s"
  using dial_into_fields [of dial ZONE_CTX url s]
  by (simp_all add: connect_zone_def case_prod_beta unable_fields Let_def)

lemmas connect_fields = connect_prime_fields connect_region_fields connect_zone_fields

lemma slice_body_Inl:
  assumes "go_index (RegionURLs config) (Region (Location config)) = Some ru"
    and "go_index (ZoneURLs config) (Region (Location config)) = Some zs"
    and "go_index zs (Zone (Location config)) = Some zu"
    and "\<not> primeConnected s \<or> \<not> regionConnected s \<or> \<not> zoneConnected s"
  shows "connectToSlice_body config dial s
           = Inl (connect_zone dial zu (connect_region dial ru (connect_prime config dial s)))"
  using assms by (simp add: connectToSlice_body_def Let_def)

lemma slice_forever:
  assumes idx: "go_index (RegionURLs config) (Region (Location config)) = Some ru"
      "go_index (ZoneURLs config) (Region (Location config)) = Some zs"
      "go_index zs (Zone (Location config)) = Some zu"
    and empty: "PrimeURL config = [] \<or> ru = [] \<or> zu = []"
  shows "connectToSlice config dial = None"
  unfolding connectToSlice_def
proof (rule go_loop_forever
    [where P = "\<lambda>s. (PrimeURL config = [] \<and> \<not> primeConnected s)
                  \<or> (ru = [] \<and> \<not> regionConnected s) \<or> (zu = [] \<and> \<not> zoneConnected s)"])
  show "PrimeURL config = [] \<and> \<not> primeConnected connectToSlice_start
        \<or> ru = [] \<and> \<not> regionConnected connectToSlice_start
        \<or> zu = [] \<and> \<not> zoneConnected connectToSlice_start"
    using empty by (simp add: connectToSlice_start_def)
next
  fix s :: slice_conn
  assume P: "PrimeURL config = [] \<and> \<not> primeConnected s \<or> ru = [] \<and> \<not> regionConnected s
             \<or> zu = [] \<and> \<not> zoneConnected s"
  then have "\<not> primeConnected s \<or> \<not> regionConnected s \<or> \<not> zoneConnected s" by blast
  from slice_body_Inl [where dial = dial, OF idx this] P
  show "\<exists>s'. connectToSlice_body config dial s = Inl s'
           \<and> (PrimeURL config = [] \<and> \<not> primeConnected s' \<or> ru = [] \<and> \<not> regionConnected s'
                \<or> zu = [] \<and> \<not> zoneConnected s')"
    by (auto simp: connect_fields)
qed

lemma slice_body_sleeps:
  "connectToSlice_body config dial s = Inl s' \<Longrightarrow> sleeps (sliceTrace s') = sleeps (sliceTrace s)"
  by (auto simp: connectToSlice_body_def Let_def connect_fields
           split: if_splits option.splits)

lemma slice_no_sleep:
  "(run_steps (connectToSlice_body config dial) k connectToSlice_start = Inl s
      \<longrightarrow> sleeps (sliceTrace s) = [])
   \<and> (run_steps (connectToSlice_body config dial) k connectToSlice_start = Inr r
      \<longrightarrow> (\<forall>s'. r = Returned s' \<longrightarrow> sleeps (sliceTrace s') = []))"
proof (rule run_steps_preserves [where P = "\<lambda>s. sleeps (sliceTrace s) = []"])
  show "sleeps (sliceTrace connectToSlice_start) = []"
    by (simp add: connectToSlice_start_def)
next
  fix s s' :: slice_conn
  assume "sleeps (sliceTrace s) = []" "connectToSlice_body config dial s = Inl s'"
  then show "sleeps (sliceTrace s') = []" by (simp add: slice_body_sleeps)
next
  fix s :: slice_conn and r
  assume "sleeps (sliceTrace s) = []" "connectToSlice_body config dial s = Inr r"
  then show "\<forall>s'. r = Returned s' \<longrightarrow> sleeps (sliceTrace s') = []"
    by (auto simp: connectToSlice_body_def Let_def split: if_splits option.splits)
qed

text \<open>
  C9. \<^verbatim>\<open>connectToProxy\<close> returns exactly when \<^verbatim>\<open>config.ProxyURL\<close> is not empty and some dial
  succeeds, and then it returns the client of the first dial that succeeded. With an
  empty URL every pass leaves the state as it was (the flag is never set) and the loop
  never returns. \<^verbatim>\<open>connectToSlice\<close> never returns when the Prime URL, or the Region or Zone
  URL of the configured location, is empty. No trace of either loop holds a sleep.
\<close>

theorem connect_loops_termination:
  "(connectToProxy config dial \<noteq> None)
     = (ProxyURL config \<noteq> [] \<and> (\<exists>n. snd (dial n (ProxyURL config)) = None))
   \<and> (ProxyURL config \<noteq> [] \<and> snd (dial n (ProxyURL config)) = None
        \<and> (\<forall>j<n. snd (dial j (ProxyURL config)) \<noteq> None)
      \<longrightarrow> (\<exists>s'. connectToProxy config dial = Some s'
             \<and> proxyClient s' = fst (dial n (ProxyURL config)) \<and> proxyDials s' = Suc n))
   \<and> (ProxyURL config = []
      \<longrightarrow> connectToProxy config dial = None
          \<and> run_steps (connectToProxy_body config dial) k connectToProxy_start
              = Inl connectToProxy_start)
   \<and> (go_index (RegionURLs config) (Region (Location config)) = Some regionURL
        \<and> go_index (ZoneURLs config) (Region (Location config)) = Some zoneURLs
        \<and> go_index zoneURLs (Zone (Location config)) = Some zoneURL
        \<and> (PrimeURL config = [] \<or> regionURL = [] \<or> zoneURL = [])
      \<longrightarrow> connectToSlice config dial = None)
   \<and> (run_steps (connectToProxy_body config dial) k connectToProxy_start \<in> {Inl s, Inr s}
      \<longrightarrow> sleeps (proxyTrace s) = [])
   \<and> (run_steps (connectToSlice_body config dial) k connectToSlice_start
         \<in> {Inl t, Inr (Returned t)}
      \<longrightarrow> sleeps (sliceTrace t) = [])"
proof (intro conjI impI)
  show "(connectToProxy config dial \<noteq> None)
     = (ProxyURL config \<noteq> [] \<and> (\<exists>n. snd (dial n (ProxyURL config)) = None))"
    by (rule proxy_iff)
next
  assume a: "ProxyURL config \<noteq> [] \<and> snd (dial n (ProxyURL config)) = None
        \<and> (\<forall>j<n. snd (dial j (ProxyURL config)) \<noteq> None)"
  then have "\<exists>s'. connectToProxy config dial = Some s'
           \<and> proxyClient s' = fst (dial n (ProxyURL config))
           \<and> proxyDials s' = Suc n \<and> sleeps (proxyTrace s') = []"
    by (intro proxy_returns) simp_all
  then show "\<exists>s'. connectToProxy config dial = Some s'
             \<and> proxyClient s' = fst (dial n (ProxyURL config)) \<and> proxyDials s' = Suc n"
    by blast
next
  assume "ProxyURL config = []"
  then show "connectToProxy config dial = None"
    and "run_steps (connectToProxy_body config dial) k connectToProxy_start
              = Inl connectToProxy_start"
    by (simp_all add: proxy_never_empty_url)
next
  assume "go_index (RegionURLs config) (Region (Location config)) = Some regionURL
        \<and> go_index (ZoneURLs config) (Region (Location config)) = Some zoneURLs
        \<and> go_index zoneURLs (Zone (Location config)) = Some zoneURL
        \<and> (PrimeURL config = [] \<or> regionURL = [] \<or> zoneURL = [])"
  then show "connectToSlice config dial = None"
    using slice_forever [of config regionURL zoneURLs zoneURL dial] by blast
next
  assume "run_steps (connectToProxy_body config dial) k connectToProxy_start \<in> {Inl s, Inr s}"
  then show "sleeps (proxyTrace s) = []"
    using proxy_no_sleep [of config dial k s s] by blast
next
  assume "run_steps (connectToSlice_body config dial) k connectToSlice_start
         \<in> {Inl t, Inr (Returned t)}"
  then show "sleeps (sliceTrace t) = []"
    using slice_no_sleep [of config dial k t "Returned t"] by blast
qed

theorem connect_loops_termination_witness:
  "connectToProxy proxy_config flaky_dial \<noteq> None
   \<and> connectToProxy (proxy_config\<lparr>ProxyURL := []\<rparr>) flaky_dial = None
   \<and> connectToSlice (direct_config\<lparr>PrimeURL := []\<rparr>) flaky_dial = None
   \<and> (\<exists>s'. connectToProxy proxy_config flaky_dial = Some s'
          \<and> proxyClient s' = Some 7 \<and> proxyDials s' = 3)
   \<and> sleeps (proxyTrace connectToProxy_start) = []
   \<and> sleeps (sliceTrace connectToSlice_start) = []"
proof -
  have "\<exists>n. snd (flaky_dial n (ProxyURL proxy_config)) = None"
    by (rule exI [of _ 2]) (simp add: flaky_dial_def)
  then have "connectToProxy proxy_config flaky_dial \<noteq> None"
    using connect_loops_termination [of proxy_config flaky_dial]
    by (simp add: proxy_config_def)
  moreover have "connectToProxy (proxy_config\<lparr>ProxyURL := []\<rparr>) flaky_dial = None"
    using connect_loops_termination [of "proxy_config\<lparr>ProxyURL := []\<rparr>" flaky_dial]
    by simp
  moreover have "connectToSlice (direct_config\<lparr>PrimeURL := []\<rparr>) flaky_dial = None"
    using connect_loops_termination [of "direct_config\<lparr>PrimeURL := []\<rparr>" flaky_dial 0 0
        "''ws://127.0.0.1:8579''" "[''ws://127.0.0.1:8611'']" "''ws://127.0.0.1:8611''"]
    by (simp add: direct_config_def go_index_def Region_def Zone_def)
  moreover have "\<exists>s'. connectToProxy proxy_config flaky_dial = Some s'
          \<and> proxyClient s' = Some 7 \<and> proxyDials s' = 3"
    using connect_loops_termination [of proxy_config flaky_dial 2]
    by (simp add: proxy_config_def flaky_dial_def)
  moreover have "sleeps (proxyTrace connectToProxy_start) = []"
    "sleeps (sliceTrace connectToSlice_start) = []"
    using connect_loops_termination [of proxy_config flaky_dial 0 0 "[]" "[]" "[]"
        connectToProxy_start connectToSlice_start]
    by simp_all
  ultimately show ?thesis by blast
qed

section \<open>Properties of the retry loops\<close>

lemma go_int_id: "- (2 ^ 63) \<le> x \<Longrightarrow> x < 2 ^ 63 \<Longrightarrow> go_int x = x"
  by (simp add: go_int_def)

lemma delay_bounds: "0 < delay n \<and> delay n \<le> 14400"
  by (simp add: delay_def)

lemma backoff_delay: "backoff (delay n) = delay (Suc n)"
proof -
  have b: "0 < delay n" "delay n \<le> 14400" using delay_bounds [of n] by simp_all
  then have g: "go_int (delay n * 2) = delay n * 2"
    by (intro go_int_id) simp_all
  show ?thesis
  proof (cases "(2::int) ^ n \<le> 14400")
    case True
    then have "delay n = 2 ^ n" by (simp add: delay_def)
    then show ?thesis using g by (simp add: backoff_def maxRetryDelay_def delay_def)
  next
    case False
    then have "delay n = 14400" "delay (Suc n) = 14400" by (simp_all add: delay_def)
    then show ?thesis using g by (simp add: backoff_def maxRetryDelay_def)
  qed
qed

lemma sleep_for_delay: "sleep_for (delay n) = Sleep (delay n * Second)"
proof -
  have b: "0 < delay n" "delay n \<le> 14400" using delay_bounds [of n] by simp_all
  then have "0 \<le> delay n * 1000000000" "delay n * 1000000000 \<le> 14400 * 1000000000"
    by simp_all
  then have "go_int (delay n * Second) = delay n * Second"
    unfolding Second_def by (intro go_int_id) simp_all
  then show ?thesis by (simp add: sleep_for_def)
qed

lemma node_fail_steps:
  assumes "\<And>j. j < k \<Longrightarrow> isl (GetPendingHeader j)"
  shows "\<exists>s'. run_steps (fetchPendingHeaderNode_body GetPendingHeader) k (retry_start firstId ch)
             = Inl s'
           \<and> attempts s' = k \<and> retryDelay s' = delay k \<and> updateCh s' = ch
           \<and> sleeps (trace s') = backoffs k"
  using assms
proof (induction k)
  case 0
  then show ?case by (simp add: retry_start_def delay_def backoffs_def)
next
  case (Suc k)
  then obtain s' where s': "run_steps (fetchPendingHeaderNode_body GetPendingHeader) k
        (retry_start firstId ch) = Inl s'"
    "attempts s' = k" "retryDelay s' = delay k" "updateCh s' = ch"
    "sleeps (trace s') = backoffs k"
    by force
  from Suc.prems [of k] obtain err where "GetPendingHeader k = Inl err"
    by (cases "GetPendingHeader k") simp_all
  with s' have "\<exists>s''. fetchPendingHeaderNode_body GetPendingHeader s' = Inl s''
      \<and> attempts s'' = Suc k \<and> retryDelay s'' = delay (Suc k) \<and> updateCh s'' = ch
      \<and> sleeps (trace s'') = backoffs (Suc k)"
    by (simp add: fetchPendingHeaderNode_body_def backoff_delay sleep_for_delay sleeps_append
          backoffs_def)
  then show ?case
    by (simp only: run_steps_Suc_right s'(1) sum.case)
qed

lemma node_returns:
  assumes "GetPendingHeader k = Inr h" and "\<And>j. j < k \<Longrightarrow> isl (GetPendingHeader j)"
  shows "\<exists>s'. fetchPendingHeaderNode GetPendingHeader firstId ch = Some s'
           \<and> attempts s' = Suc k \<and> updateCh s' = ch @ [h]
           \<and> sleeps (trace s') = backoffs k"
proof -
  from node_fail_steps [of k GetPendingHeader firstId ch, OF assms(2)]
  obtain s' where s': "run_steps (fetchPendingHeaderNode_body GetPendingHeader) k
        (retry_start firstId ch) = Inl s'"
    "attempts s' = k" "retryDelay s' = delay k" "updateCh s' = ch"
    "sleeps (trace s') = backoffs k"
    by blast
  let ?r = "s'\<lparr>attempts := Suc (attempts s'), updateCh := updateCh s' @ [h],
                 trace := trace s' @ [Enqueue h]\<rparr>"
  have "fetchPendingHeaderNode_body GetPendingHeader s' = Inr ?r"
    using s' assms(1) by (simp add: fetchPendingHeaderNode_body_def)
  then have "run_steps (fetchPendingHeaderNode_body GetPendingHeader) (Suc k)
          (retry_start firstId ch) = Inr ?r"
    by (simp only: run_steps_Suc_right s'(1) sum.case)
  then have "fetchPendingHeaderNode GetPendingHeader firstId ch = Some ?r"
    unfolding fetchPendingHeaderNode_def by (rule go_loop_run)
  with s' show ?thesis by (simp add: sleeps_append)
qed

lemma node_never:
  assumes "\<forall>n. isl (GetPendingHeader n)"
  shows "fetchPendingHeaderNode GetPendingHeader firstId ch = None"
  unfolding fetchPendingHeaderNode_def
proof (rule go_loop_None)
  fix k
  from node_fail_steps [of k GetPendingHeader firstId ch] assms
  show "isl (run_steps (fetchPendingHeaderNode_body GetPendingHeader) k (retry_start firstId ch))"
    by auto
qed

lemma send_fail_steps:
  assumes "\<And>j. j < k \<Longrightarrow> MakeRequest j = None \<and> SendTCPRequest j \<noteq> None"
  shows "\<exists>s'. run_steps (sendMinedHeaderProxy_body MakeRequest SendTCPRequest header) k
               (retry_start firstId ch) = Inl s'
           \<and> attempts s' = k \<and> retryDelay s' = delay k \<and> latestId s' = firstId + of_nat k
           \<and> sleeps (trace s') = backoffs k"
  using assms
proof (induction k)
  case 0
  then show ?case by (simp add: retry_start_def delay_def backoffs_def)
next
  case (Suc k)
  then obtain s' where s': "run_steps (sendMinedHeaderProxy_body MakeRequest SendTCPRequest header)
        k (retry_start firstId ch) = Inl s'"
    "attempts s' = k" "retryDelay s' = delay k" "latestId s' = firstId + of_nat k"
    "sleeps (trace s') = backoffs k"
    by force
  from Suc.prems [of k] obtain err where "MakeRequest k = None" "SendTCPRequest k = Some err"
    by auto
  with s' have "\<exists>s''. sendMinedHeaderProxy_body MakeRequest SendTCPRequest header s' = Inl s''
      \<and> attempts s'' = Suc k \<and> retryDelay s'' = delay (Suc k)
      \<and> latestId s'' = firstId + of_nat (Suc k)
      \<and> sleeps (trace s'') = backoffs (Suc k)"
    by (simp add: sendMinedHeaderProxy_body_def incrementLatestID_def backoff_delay
          sleep_for_delay sleeps_append backoffs_def add.assoc)
  then show ?case
    by (simp only: run_steps_Suc_right s'(1) sum.case)
qed

lemma send_returns:
  assumes "MakeRequest k = None" "SendTCPRequest k = None"
    and "\<And>j. j < k \<Longrightarrow> MakeRequest j = None \<and> SendTCPRequest j \<noteq> None"
  shows "\<exists>s'. sendMinedHeaderProxy MakeRequest SendTCPRequest header firstId ch
             = Some (Returned (), s')
           \<and> attempts s' = Suc k \<and> latestId s' = firstId + of_nat (Suc k)
           \<and> sleeps (trace s') = backoffs k"
proof -
  from send_fail_steps [of k MakeRequest SendTCPRequest header firstId ch, OF assms(3)]
  obtain s' where s': "run_steps (sendMinedHeaderProxy_body MakeRequest SendTCPRequest header)
        k (retry_start firstId ch) = Inl s'"
    "attempts s' = k" "retryDelay s' = delay k" "latestId s' = firstId + of_nat k"
    "sleeps (trace s') = backoffs k"
    by blast
  let ?r = "s'\<lparr>latestId := latestId s' + 1, attempts := Suc (attempts s'),
                 trace := trace s' @ [SendTCP (latestId s')]\<rparr>"
  have "sendMinedHeaderProxy_body MakeRequest SendTCPRequest header s' = Inr (Returned (), ?r)"
    using s' assms(1,2) by (simp add: sendMinedHeaderProxy_body_def incrementLatestID_def)
  then have "run_steps (sendMinedHeaderProxy_body MakeRequest SendTCPRequest header) (Suc k)
          (retry_start firstId ch) = Inr (Returned (), ?r)"
    by (simp only: run_steps_Suc_right s'(1) sum.case)
  then have "sendMinedHeaderProxy MakeRequest SendTCPRequest header firstId ch
               = Some (Returned (), ?r)"
    unfolding sendMinedHeaderProxy_def by (rule go_loop_run)
  with s' show ?thesis by (simp add: sleeps_append add.assoc)
qed

lemma send_never:
  assumes "\<forall>n. MakeRequest n = None \<and> SendTCPRequest n \<noteq> None"
  shows "sendMinedHeaderProxy MakeRequest SendTCPRequest header firstId ch = None"
  unfolding sendMinedHeaderProxy_def
proof (rule go_loop_None)
  fix k
  from send_fail_steps [of k MakeRequest SendTCPRequest header firstId ch] assms
  show "isl (run_steps (sendMinedHeaderProxy_body MakeRequest SendTCPRequest header) k
               (retry_start firstId ch))"
    by auto
qed

lemma proxy_fetch_fail_steps:
  assumes "\<And>j. j < k \<Longrightarrow> MakeRequest j = None \<and> SendTCPRequest j \<noteq> None \<and> arrivals j \<noteq> []"
  shows "\<exists>s'. run_steps (fetchPendingHeaderProxy_body MakeRequest SendTCPRequest arrivals) k
               (retry_start firstId ch) = Inl s'
           \<and> attempts s' = k \<and> retryDelay s' = delay k \<and> sleeps (trace s') = backoffs k"
  using assms
proof (induction k)
  case 0
  then show ?case by (simp add: retry_start_def delay_def backoffs_def)
next
  case (Suc k)
  then obtain s' where s': "run_steps (fetchPendingHeaderProxy_body MakeRequest SendTCPRequest
        arrivals) k (retry_start firstId ch) = Inl s'"
    "attempts s' = k" "retryDelay s' = delay k" "sleeps (trace s') = backoffs k"
    by force
  from Suc.prems [of k] obtain err h hs where "MakeRequest k = None" "SendTCPRequest k = Some err"
    "updateCh s' @ arrivals k = h # hs"
    by (cases "updateCh s' @ arrivals k") auto
  with s' have "\<exists>s''. fetchPendingHeaderProxy_body MakeRequest SendTCPRequest arrivals s' = Inl s''
      \<and> attempts s'' = Suc k \<and> retryDelay s'' = delay (Suc k)
      \<and> sleeps (trace s'') = backoffs (Suc k)"
    by (simp add: fetchPendingHeaderProxy_body_def incrementLatestID_def backoff_delay
          sleep_for_delay sleeps_append backoffs_def)
  then show ?case
    by (simp only: run_steps_Suc_right s'(1) sum.case)
qed

lemma proxy_fetch_returns:
  assumes "MakeRequest k = None" "SendTCPRequest k = None" "arrivals k \<noteq> []"
    and "\<And>j. j < k \<Longrightarrow> MakeRequest j = None \<and> SendTCPRequest j \<noteq> None \<and> arrivals j \<noteq> []"
  shows "\<exists>s'. fetchPendingHeaderProxy MakeRequest SendTCPRequest arrivals firstId ch
             = Some (Returned (), s')
           \<and> attempts s' = Suc k \<and> sleeps (trace s') = backoffs k"
proof -
  from proxy_fetch_fail_steps [of k MakeRequest SendTCPRequest arrivals firstId ch, OF assms(4)]
  obtain s' where s': "run_steps (fetchPendingHeaderProxy_body MakeRequest SendTCPRequest
        arrivals) k (retry_start firstId ch) = Inl s'"
    "attempts s' = k" "retryDelay s' = delay k" "sleeps (trace s') = backoffs k"
    by blast
  from assms(3) obtain h hs where "updateCh s' @ arrivals k = h # hs"
    by (cases "updateCh s' @ arrivals k") auto
  with s' assms(1,2)
  have "\<exists>r. fetchPendingHeaderProxy_body MakeRequest SendTCPRequest arrivals s'
               = Inr (Returned (), r)
          \<and> attempts r = Suc k \<and> sleeps (trace r) = backoffs k"
    by (simp add: fetchPendingHeaderProxy_body_def incrementLatestID_def sleeps_append)
  then obtain r where r: "fetchPendingHeaderProxy_body MakeRequest SendTCPRequest arrivals s'
               = Inr (Returned (), r)" "attempts r = Suc k" "sleeps (trace r) = backoffs k"
    by blast
  from r(1) have "run_steps (fetchPendingHeaderProxy_body MakeRequest SendTCPRequest arrivals)
          (Suc k) (retry_start firstId ch) = Inr (Returned (), r)"
    by (simp only: run_steps_Suc_right s'(1) sum.case)
  then have "fetchPendingHeaderProxy MakeRequest SendTCPRequest arrivals firstId ch
               = Some (Returned (), r)"
    unfolding fetchPendingHeaderProxy_def by (rule go_loop_run)
  with r show ?thesis by simp
qed

lemma proxy_fetch_never:
  assumes "\<forall>n. MakeRequest n = None \<and> SendTCPRequest n \<noteq> None \<and> arrivals n \<noteq> []"
  shows "fetchPendingHeaderProxy MakeRequest SendTCPRequest arrivals firstId ch = None"
  unfolding fetchPendingHeaderProxy_def
proof (rule go_loop_None)
  fix k
  from proxy_fetch_fail_steps [of k MakeRequest SendTCPRequest arrivals firstId ch] assms
  show "isl (run_steps (fetchPendingHeaderProxy_body MakeRequest SendTCPRequest arrivals) k
               (retry_start firstId ch))"
    by auto
qed

text \<open>
  C5. In \<^verbatim>\<open>fetchPendingHeaderNode\<close>, in \<^verbatim>\<open>sendMinedHeaderProxy\<close> and in
  \<^verbatim>\<open>fetchPendingHeaderProxy\<close> the delay slept after
  the \<open>n\<close>-th failed attempt (counted from 0), before the next attempt, is
  \<open>min (2 ^ n) cap\<close> seconds with the cap \<^verbatim>\<open>maxRetryDelay\<close> of 14400 seconds: the first is 1
  second and none exceeds the cap. There is no limit on the number of attempts: for
  every \<open>k\<close>, when the first \<open>k\<close> attempts fail and the next succeeds the function returns
  after \<open>k + 1\<close> attempts and these \<open>k\<close> sleeps, and when every attempt fails it never
  returns. (For the two loops that talk to the proxy this is said of runs in which the
  request can be built, as otherwise the process exits; and for
  \<^verbatim>\<open>fetchPendingHeaderProxy\<close> of runs in which every pass finds a header on the update
  channel, as otherwise its receive blocks.)
\<close>

theorem retry_delays_double_to_cap:
  "maxRetryDelay = 14400 \<and> delay 0 = 1 \<and> delay n = min (2 ^ n) maxRetryDelay
   \<and> delay n \<le> maxRetryDelay \<and> backoff (delay n) = delay (Suc n)
   \<and> (GetPendingHeader k = Inr h \<and> (\<forall>j<k. isl (GetPendingHeader j))
      \<longrightarrow> (\<exists>s'. fetchPendingHeaderNode GetPendingHeader firstId ch = Some s'
             \<and> attempts s' = Suc k
             \<and> sleeps (trace s') = map (\<lambda>n. delay n * Second) [0..<k]))
   \<and> ((\<forall>n. isl (GetPendingHeader n))
      \<longrightarrow> fetchPendingHeaderNode GetPendingHeader firstId ch = None)
   \<and> (MakeRequest k = None \<and> SendTCPRequest k = None
        \<and> (\<forall>j<k. MakeRequest j = None \<and> SendTCPRequest j \<noteq> None)
      \<longrightarrow> (\<exists>s'. sendMinedHeaderProxy MakeRequest SendTCPRequest header firstId ch
                   = Some (Returned (), s')
             \<and> attempts s' = Suc k
             \<and> sleeps (trace s') = map (\<lambda>n. delay n * Second) [0..<k]))
   \<and> ((\<forall>n. MakeRequest n = None \<and> SendTCPRequest n \<noteq> None)
      \<longrightarrow> sendMinedHeaderProxy MakeRequest SendTCPRequest header firstId ch = None)
   \<and> (MakeRequest k = None \<and> SendTCPRequest k = None \<and> arrivals k \<noteq> []
        \<and> (\<forall>j<k. MakeRequest j = None \<and> SendTCPRequest j \<noteq> None \<and> arrivals j \<noteq> [])
      \<longrightarrow> (\<exists>s'. fetchPendingHeaderProxy MakeRequest SendTCPRequest arrivals firstId ch
                   = Some (Returned (), s')
             \<and> attempts s' = Suc k
             \<and> sleeps (trace s') = map (\<lambda>n. delay n * Second) [0..<k]))
   \<and> ((\<forall>n. MakeRequest n = None \<and> SendTCPRequest n \<noteq> None \<and> arrivals n \<noteq> [])
      \<longrightarrow> fetchPendingHeaderProxy MakeRequest SendTCPRequest arrivals firstId ch = None)"
proof (intro conjI impI)
  show "maxRetryDelay = 14400" by (simp add: maxRetryDelay_def)
  show "delay 0 = 1" by (simp add: delay_def)
  show "delay n = min (2 ^ n) maxRetryDelay" by (simp add: delay_def maxRetryDelay_def)
  show "delay n \<le> maxRetryDelay" by (simp add: delay_def maxRetryDelay_def)
  show "backoff (delay n) = delay (Suc n)" by (rule backoff_delay)
next
  assume "GetPendingHeader k = Inr h \<and> (\<forall>j<k. isl (GetPendingHeader j))"
  then have "\<exists>s'. fetchPendingHeaderNode GetPendingHeader firstId ch = Some s'
           \<and> attempts s' = Suc k \<and> updateCh s' = ch @ [h]
           \<and> sleeps (trace s') = backoffs k"
    by (intro node_returns) simp_all
  then show "\<exists>s'. fetchPendingHeaderNode GetPendingHeader firstId ch = Some s'
             \<and> attempts s' = Suc k
             \<and> sleeps (trace s') = map (\<lambda>n. delay n * Second) [0..<k]"
    unfolding backoffs_def by blast
next
  assume "\<forall>n. isl (GetPendingHeader n)"
  then show "fetchPendingHeaderNode GetPendingHeader firstId ch = None"
    by (rule node_never)
next
  assume "MakeRequest k = None \<and> SendTCPRequest k = None
        \<and> (\<forall>j<k. MakeRequest j = None \<and> SendTCPRequest j \<noteq> None)"
  then have "\<exists>s'. sendMinedHeaderProxy MakeRequest SendTCPRequest header firstId ch
             = Some (Returned (), s')
           \<and> attempts s' = Suc k \<and> latestId s' = firstId + of_nat (Suc k)
           \<and> sleeps (trace s') = backoffs k"
    by (intro send_returns) simp_all
  then show "\<exists>s'. sendMinedHeaderProxy MakeRequest SendTCPRequest header firstId ch
                   = Some (Returned (), s')
             \<and> attempts s' = Suc k
             \<and> sleeps (trace s') = map (\<lambda>n. delay n * Second) [0..<k]"
    unfolding backoffs_def by blast
next
  assume "\<forall>n. MakeRequest n = None \<and> SendTCPRequest n \<noteq> None"
  then show "sendMinedHeaderProxy MakeRequest SendTCPRequest header firstId ch = None"
    by (rule send_never)
next
  assume "MakeRequest k = None \<and> SendTCPRequest k = None \<and> arrivals k \<noteq> []
        \<and> (\<forall>j<k. MakeRequest j = None \<and> SendTCPRequest j \<noteq> None \<and> arrivals j \<noteq> [])"
  then have "\<exists>s'. fetchPendingHeaderProxy MakeRequest SendTCPRequest arrivals firstId ch
             = Some (Returned (), s')
           \<and> attempts s' = Suc k \<and> sleeps (trace s') = backoffs k"
    by (intro proxy_fetch_returns) simp_all
  then show "\<exists>s'. fetchPendingHeaderProxy MakeRequest SendTCPRequest arrivals firstId ch
                   = Some (Returned (), s')
             \<and> attempts s' = Suc k
             \<and> sleeps (trace s') = map (\<lambda>n. delay n * Second) [0..<k]"
    unfolding backoffs_def by blast
next
  assume "\<forall>n. MakeRequest n = None \<and> SendTCPRequest n \<noteq> None \<and> arrivals n \<noteq> []"
  then show "fetchPendingHeaderProxy MakeRequest SendTCPRequest arrivals firstId ch = None"
    by (rule proxy_fetch_never)
qed

theorem retry_delays_double_to_cap_witness:
  "(\<exists>s'. fetchPendingHeaderNode node_answers 0 [] = Some s' \<and> attempts s' = 4
      \<and> sleeps (trace s') = [1000000000, 2000000000, 4000000000])
   \<and> fetchPendingHeaderNode (\<lambda>n. Inl ''down'') 0 [] = None
   \<and> (\<exists>s'. sendMinedHeaderProxy (\<lambda>n. None) send_answers header0 0 []
             = Some (Returned (), s') \<and> attempts s' = 16
      \<and> sleeps (trace s') = map (\<lambda>n. delay n * Second) [0..<15])
   \<and> delay 14 * Second = 14400000000000
   \<and> sendMinedHeaderProxy (\<lambda>n. None) (\<lambda>n. Some ''down'') header0 0 [] = None
   \<and> (\<exists>s'. fetchPendingHeaderProxy never_fails first_send_fails two_arrivals 0 []
             = Some (Returned (), s') \<and> attempts s' = 2
      \<and> sleeps (trace s') = [1000000000])
   \<and> fetchPendingHeaderProxy (\<lambda>n. None) (\<lambda>n. Some ''down'') two_arrivals 0 [] = None"
proof -
  have a: "\<forall>j<3. isl (node_answers j)" "node_answers 3 = Inr header0"
    by (simp_all add: node_answers_def)
  have b: "\<forall>j<15. send_answers j \<noteq> None" "send_answers 15 = None"
    by (simp_all add: send_answers_def)
  have c: "map (\<lambda>n. delay n * Second) [0..<3] = [1000000000, 2000000000, 4000000000]"
    by (simp add: delay_def Second_def upt_conv_Cons)
  have d: "delay 14 * Second = 14400000000000"
    by (simp add: delay_def Second_def)
  from retry_delays_double_to_cap [of 0 node_answers 3 header0 0 "[]" "\<lambda>n. None" send_answers header0]
    a b c
  have "(\<exists>s'. fetchPendingHeaderNode node_answers 0 [] = Some s' \<and> attempts s' = 4
      \<and> sleeps (trace s') = [1000000000, 2000000000, 4000000000])"
    by simp
  moreover
  from retry_delays_double_to_cap [of 0 "\<lambda>n. Inl ''down''" 0 header0 0 "[]" "\<lambda>n. None"
      "\<lambda>n. Some ''down''" header0]
  have "fetchPendingHeaderNode (\<lambda>n. Inl ''down'') 0 [] = None"
    "sendMinedHeaderProxy (\<lambda>n. None) (\<lambda>n. Some ''down'') header0 0 [] = None"
    by simp_all
  moreover
  from retry_delays_double_to_cap [of 0 node_answers 15 header0 0 "[]" "\<lambda>n. None" send_answers header0]
    b
  have "\<exists>s'. sendMinedHeaderProxy (\<lambda>n. None) send_answers header0 0 []
             = Some (Returned (), s') \<and> attempts s' = 16
      \<and> sleeps (trace s') = map (\<lambda>n. delay n * Second) [0..<15]"
    by simp
  moreover
  from retry_delays_double_to_cap [of 0 node_answers 1 header0 0 "[]" never_fails
      first_send_fails header0 two_arrivals]
  have "\<exists>s'. fetchPendingHeaderProxy never_fails first_send_fails two_arrivals 0 []
             = Some (Returned (), s') \<and> attempts s' = 2
      \<and> sleeps (trace s') = [1000000000]"
    by (simp add: never_fails_def first_send_fails_def two_arrivals_def delay_def Second_def
          numeral_2_eq_2)
  moreover
  from retry_delays_double_to_cap [of 0 node_answers 0 header0 0 "[]" "\<lambda>n. None"
      "\<lambda>n. Some ''down''" header0 two_arrivals]
  have "fetchPendingHeaderProxy (\<lambda>n. None) (\<lambda>n. Some ''down'') two_arrivals 0 [] = None"
    by (simp add: two_arrivals_def)
  ultimately show ?thesis using d by blast
qed

section \<open>Properties of the initial fetch from the proxy\<close>

lemma sample_run:
  "fetchPendingHeaderProxy never_fails first_send_fails two_arrivals 0 []
     = Some (Returned (),
         \<lparr>retryDelay = 2, attempts = 2, latestId = 2, updateCh = [header1],
          trace = [SendTCP 0, Dequeue header0, Log ''Pending block not found error: '',
                   Sleep 1000000000, SendTCP 1, Dequeue header1, Enqueue header1]\<rparr>)"
proof -
  have "run_steps (fetchPendingHeaderProxy_body never_fails first_send_fails two_arrivals)
          (Suc (Suc 0)) (retry_start 0 [])
     = Inr (Returned (),
         \<lparr>retryDelay = 2, attempts = 2, latestId = 2, updateCh = [header1],
          trace = [SendTCP 0, Dequeue header0, Log ''Pending block not found error: '',
                   Sleep 1000000000, SendTCP 1, Dequeue header1, Enqueue header1]\<rparr>)"
    by (simp add: fetchPendingHeaderProxy_body_def never_fails_def first_send_fails_def
          two_arrivals_def retry_start_def incrementLatestID_def backoff_def go_int_def
          maxRetryDelay_def sleep_for_def Second_def)
  then show ?thesis
    unfolding fetchPendingHeaderProxy_def by (rule go_loop_run)
qed

text \<open>
  C7. The code does not put back a header it received on the retry path. Here the first
  write to the proxy fails while the listener delivers \<open>header0\<close>, and the second
  succeeds while it delivers \<open>header1\<close>: the function takes both headers from the update
  channel and sends back only \<open>header1\<close>, as the success branch does; \<open>header0\<close>, taken
  in the pass that went on to retry, is on the channel no more and the mining loop never
  sees it.
\<close>

theorem retry_path_drops_header:
  "channel_view (fetchPendingHeaderProxy never_fails first_send_fails two_arrivals 0 [])
     = Some ([header0, header1], [header1], [header1])
   \<and> header0 \<noteq> header1"
  by (simp add: sample_run channel_view_def header0_def header1_def)

section \<open>Properties of the hashrate display\<close>

declare ilog2.simps [simp del]

lemma floor_numeral_div: "\<lfloor>(numeral a :: rat) / numeral b\<rfloor> = numeral a div numeral b"
  using floor_divide_of_int_eq [of "numeral a" "numeral b", where ?'a = rat] by simp

lemmas float_eval = div1000_def round_normal_def rne_def ilog2.simps Let_def floor_numeral_div

lemma sample_950: "toSiUnits (Num 950) = Some (Num 950, ''h/s'')"
proof -
  have "run_steps toSiUnits_body (Suc 0) (Num 950, 0) = Inr (Num 950, 0)"
    by simp
  then have "go_loop toSiUnits_body (Num 950, 0) = Some (Num 950, 0)"
    by (rule go_loop_run)
  then show ?thesis by (simp add: toSiUnits_def)
qed

lemma sample_1500: "toSiUnits (Num 1500) = Some (Num 1.5, ''Kh/s'')"
proof -
  have "run_steps toSiUnits_body (Suc (Suc 0)) (Num 1500, 0) = Inr (Num 1.5, 3)"
    by (simp add: float_eval)
  then have "go_loop toSiUnits_body (Num 1500, 0) = Some (Num 1.5, 3)"
    by (rule go_loop_run)
  then show ?thesis by (simp add: toSiUnits_def)
qed

lemma sample_2500000: "toSiUnits (Num 2500000) = Some (Num 2.5, ''Mh/s'')"
proof -
  have "run_steps toSiUnits_body (Suc (Suc (Suc 0))) (Num 2500000, 0) = Inr (Num 2.5, 6)"
    by (simp add: float_eval)
  then have "go_loop toSiUnits_body (Num 2500000, 0) = Some (Num 2.5, 6)"
    by (rule go_loop_run)
  then show ?thesis by (simp add: toSiUnits_def)
qed

lemma sample_1000: "toSiUnits (Num 1000) = Some (Num 1, ''Kh/s'')"
proof -
  have "run_steps toSiUnits_body (Suc (Suc 0)) (Num 1000, 0) = Inr (Num 1, 3)"
    by (simp add: float_eval)
  then have "go_loop toSiUnits_body (Num 1000, 0) = Some (Num 1, 3)"
    by (rule go_loop_run)
  then show ?thesis by (simp add: toSiUnits_def)
qed

lemma sample_rounded:
  "toSiUnits (Num 999999999999999) = Some (Num (1099511627775999 / 2 ^ 40), ''Th/s'')"
proof -
  have "run_steps toSiUnits_body (Suc (Suc (Suc (Suc (Suc 0))))) (Num 999999999999999, 0)
          = Inr (Num (1099511627775999 / 2 ^ 40), 12)"
    by (simp add: float_eval)
  then have "go_loop toSiUnits_body (Num 999999999999999, 0)
          = Some (Num (1099511627775999 / 2 ^ 40), 12)"
    by (rule go_loop_run)
  then show ?thesis by (simp add: toSiUnits_def)
qed

lemma sample_1000004:
  "toSiUnits (Num 1000004) = Some (Num (2251808820884503 / 2 ^ 51), ''Mh/s'')"
proof -
  have "run_steps toSiUnits_body (Suc (Suc (Suc 0))) (Num 1000004, 0)
          = Inr (Num (2251808820884503 / 2 ^ 51), 6)"
    by (simp add: float_eval)
  then have "go_loop toSiUnits_body (Num 1000004, 0)
          = Some (Num (2251808820884503 / 2 ^ 51), 6)"
    by (rule go_loop_run)
  then show ?thesis by (simp add: toSiUnits_def)
qed

lemma infinite_rate_loops: "toSiUnits PosInf = None"
proof -
  have "go_loop toSiUnits_body (PosInf, 0) = None"
    by (rule go_loop_forever [where P = "\<lambda>s. fst s = PosInf"]) auto
  then show ?thesis by (simp add: toSiUnits_def)
qed


lemma ilog2_le: "1 \<le> n \<Longrightarrow> 2 ^ ilog2 n \<le> n"
proof (induction n rule: ilog2.induct)
  case (1 n)
  show ?case
  proof (cases "n < 2")
    case True
    with 1 show ?thesis by (simp add: ilog2.simps)
  next
    case False
    then have "1 \<le> n div 2" by simp
    with 1(1) False have "2 ^ ilog2 (n div 2) \<le> n div 2" by simp
    then have "2 * 2 ^ ilog2 (n div 2) \<le> 2 * (n div 2)" by simp
    also have "\<dots> \<le> n" by simp
    finally show ?thesis using False by (subst ilog2.simps) simp
  qed
qed

lemma rne_ge_floor: "\<lfloor>z\<rfloor> \<le> rne z"
  by (simp add: rne_def Let_def)

lemma rne_le: "of_int (rne z) \<le> z + 1"
proof -
  have "rne z \<le> \<lfloor>z\<rfloor> + 1" by (simp add: rne_def Let_def)
  then have "(of_int (rne z) :: rat) \<le> of_int (\<lfloor>z\<rfloor> + 1)" by (simp only: of_int_le_iff)
  also have "\<dots> \<le> z + 1" by simp
  finally show ?thesis .
qed

lemma leading_bit:
  assumes "1 \<le> y"
  shows "(2 :: rat) ^ ilog2 (nat \<lfloor>y\<rfloor>) \<le> y"
proof -
  from assms have "1 \<le> \<lfloor>y\<rfloor>" by (simp add: le_floor_iff)
  then have n: "1 \<le> nat \<lfloor>y\<rfloor>" by linarith
  from ilog2_le [OF n] have "(of_nat (2 ^ ilog2 (nat \<lfloor>y\<rfloor>)) :: rat) \<le> of_nat (nat \<lfloor>y\<rfloor>)"
    by (simp only: of_nat_le_iff)
  also have "\<dots> = of_int \<lfloor>y\<rfloor>" using n by simp
  also have "\<dots> \<le> y" by simp
  finally show ?thesis by simp
qed

lemma round_normal_upper:
  assumes "1 \<le> y"
  shows "round_normal y \<le> 2 * y"
proof -
  define e where "e = ilog2 (nat \<lfloor>y\<rfloor>)"
  define ulp :: rat where "ulp = 2 ^ e / 2 ^ 52"
  have pos: "0 < ulp" by (simp add: ulp_def)
  have "ulp \<le> 2 ^ e" by (simp add: ulp_def field_simps)
  also have "\<dots> \<le> y" unfolding e_def using assms by (rule leading_bit)
  finally have small: "ulp \<le> y" .
  have "round_normal y = of_int (rne (y / ulp)) * ulp"
    by (simp add: round_normal_def Let_def e_def ulp_def)
  also have "\<dots> \<le> (y / ulp + 1) * ulp"
    using rne_le [of "y / ulp"] pos by (simp only: mult_le_cancel_right_pos)
  also have "\<dots> = y + ulp" using pos by (simp add: field_simps)
  also have "\<dots> \<le> 2 * y" using small by simp
  finally show ?thesis .
qed

lemma round_normal_lower:
  assumes m: "1 \<le> m" "m \<le> 2 ^ 53" and y: "of_nat m \<le> y"
  shows "of_nat m \<le> round_normal y"
proof -
  define e where "e = ilog2 (nat \<lfloor>y\<rfloor>)"
  define ulp :: rat where "ulp = 2 ^ e / 2 ^ 52"
  have pos: "0 < ulp" by (simp add: ulp_def)
  from m y have y1: "1 \<le> y" by (metis of_nat_1 of_nat_mono order_trans)
  have lead: "2 ^ e \<le> y" unfolding e_def using y1 by (rule leading_bit)
  have rn: "round_normal y = of_int (rne (y / ulp)) * ulp"
    by (simp add: round_normal_def Let_def e_def ulp_def)
  have fl: "(of_int \<lfloor>y / ulp\<rfloor> :: rat) \<le> of_int (rne (y / ulp))"
    using rne_ge_floor [of "y / ulp"] by (simp only: of_int_le_iff)
  show ?thesis
  proof (cases "e \<le> 52")
    case True
    define k where "k = 52 - e"
    have ek: "e + k = 52" using True by (simp add: k_def)
    have "ulp = 2 ^ e / 2 ^ (e + k)" by (simp only: ulp_def ek)
    also have "\<dots> = 1 / 2 ^ k" by (simp add: power_add)
    finally have u: "ulp = 1 / 2 ^ k" .
    have "(of_nat (m * 2 ^ k) :: rat) \<le> y * 2 ^ k" using y by simp
    also have "\<dots> = y / ulp" by (simp add: u)
    finally have "int (m * 2 ^ k) \<le> \<lfloor>y / ulp\<rfloor>" by (simp add: le_floor_iff)
    then have "(of_int (int (m * 2 ^ k)) :: rat) \<le> of_int \<lfloor>y / ulp\<rfloor>"
      by (simp only: of_int_le_iff)
    with fl have "(of_nat (m * 2 ^ k) :: rat) \<le> of_int (rne (y / ulp))" by simp
    then have "(of_nat (m * 2 ^ k) :: rat) * ulp \<le> of_int (rne (y / ulp)) * ulp"
      using pos by (simp only: mult_le_cancel_right_pos)
    moreover have "(of_nat (m * 2 ^ k) :: rat) * ulp = of_nat m" by (simp add: u)
    ultimately show ?thesis by (simp only: rn)
  next
    case False
    then have e53: "53 \<le> e" by simp
    have "(2 :: rat) ^ 52 = 2 ^ e / ulp" by (simp add: ulp_def)
    also have "\<dots> \<le> y / ulp" using lead pos by (simp add: divide_right_mono)
    finally have "(of_int (2 ^ 52) :: rat) \<le> y / ulp" by simp
    then have "(2 ^ 52 :: int) \<le> \<lfloor>y / ulp\<rfloor>" by (simp only: le_floor_iff)
    with rne_ge_floor [of "y / ulp"] have "(2 ^ 52 :: int) \<le> rne (y / ulp)" by linarith
    then have "(of_int (2 ^ 52) :: rat) \<le> of_int (rne (y / ulp))"
      by (simp only: of_int_le_iff)
    then have "(2 :: rat) ^ 52 \<le> of_int (rne (y / ulp))" by simp
    then have "(2 :: rat) ^ 52 * ulp \<le> of_int (rne (y / ulp)) * ulp"
      using pos by (simp only: mult_le_cancel_right_pos)
    moreover have "(2 :: rat) ^ 52 * ulp = 2 ^ e" by (simp add: ulp_def)
    moreover have "(of_nat m :: rat) \<le> 2 ^ e"
    proof -
      have "(of_nat m :: rat) \<le> of_nat (2 ^ 53)" using m(2) by (simp only: of_nat_le_iff)
      also have "\<dots> = 2 ^ 53" by simp
      also have "\<dots> \<le> 2 ^ e" using e53 by (intro power_increasing) simp_all
      finally show ?thesis .
    qed
    ultimately show ?thesis by (simp only: rn)
  qed
qed


lemma loop_small: "q < 1000 \<Longrightarrow> go_loop toSiUnits_body (Num q, n) = Some (Num q, n)"
  by (subst go_loop.simps) simp

lemma loop_big:
  "1000 \<le> q
     \<Longrightarrow> go_loop toSiUnits_body (Num q, n) = go_loop toSiUnits_body (Num (div1000 q), n + 3)"
  by (subst go_loop.simps) simp

lemma div1000_less:
  assumes "1000 \<le> q"
  shows "nat \<lfloor>div1000 q\<rfloor> < nat \<lfloor>q\<rfloor>"
proof -
  from assms have "1 \<le> q / 1000" by simp
  then have "div1000 q \<le> 2 * (q / 1000)"
    unfolding div1000_def by (rule round_normal_upper)
  also have "\<dots> \<le> q - 1" using assms by simp
  finally have "\<lfloor>div1000 q\<rfloor> \<le> \<lfloor>q - 1\<rfloor>" by (rule floor_mono)
  moreover have "1000 \<le> \<lfloor>q\<rfloor>" using assms by (simp add: le_floor_iff)
  ultimately show ?thesis by simp
qed

lemma loop_returns:
  "\<exists>r n'. go_loop toSiUnits_body (Num q, n) = Some (Num r, n') \<and> n \<le> n'"
proof (induction "nat \<lfloor>q\<rfloor>" arbitrary: q n rule: less_induct)
  case less
  show ?case
  proof (cases "1000 \<le> q")
    case True
    from less [OF div1000_less [OF True], of "n + 3"]
    obtain r n' where "go_loop toSiUnits_body (Num (div1000 q), n + 3) = Some (Num r, n')"
      "n + 3 \<le> n'"
      by blast
    with True show ?thesis by (auto simp: loop_big)
  next
    case False
    then show ?thesis by (simp add: loop_small)
  qed
qed

lemma div1000_lower:
  assumes "1 \<le> m" "m \<le> 2 ^ 53" "of_nat m * 1000 \<le> q"
  shows "of_nat m \<le> div1000 q"
  unfolding div1000_def using assms by (intro round_normal_lower) simp_all

lemma loop_order:
  "k \<le> 5 \<Longrightarrow> 1000 ^ k \<le> q
     \<Longrightarrow> \<exists>r n'. go_loop toSiUnits_body (Num q, n) = Some (Num r, n') \<and> n + 3 * int k \<le> n'"
proof (induction k arbitrary: q n)
  case 0
  from loop_returns [of q n] show ?case by simp
next
  case (Suc k)
  have "(1 :: rat) \<le> 1000 ^ k" by (rule one_le_power) simp
  moreover have "1000 * 1000 ^ k \<le> q" using Suc.prems(2) by simp
  ultimately have big: "1000 \<le> q" by linarith
  have "(1000 :: nat) ^ k \<le> 1000 ^ 4" using Suc.prems(1) by (intro power_increasing) simp_all
  also have "\<dots> \<le> 2 ^ 53" by simp
  finally have m: "(1000 :: nat) ^ k \<le> 2 ^ 53" .
  have "of_nat (1000 ^ k) \<le> div1000 q"
    using m Suc.prems(2) by (intro div1000_lower) simp_all
  then have "1000 ^ k \<le> div1000 q" by simp
  from Suc.IH [OF _ this, of "n + 3"] Suc.prems(1)
  obtain r n' where "go_loop toSiUnits_body (Num (div1000 q), n + 3) = Some (Num r, n')"
    "n + 3 + 3 * int k \<le> n'"
    by auto
  with big show ?case by (auto simp: loop_big)
qed

lemma beyond_Th: "1000 ^ 5 \<le> q \<Longrightarrow> toSiUnits (Num q) = Some (Num q, ''h/s'')"
proof -
  assume "1000 ^ 5 \<le> q"
  from loop_order [OF _ this, of 0]
  obtain r n' where "go_loop toSiUnits_body (Num q, 0) = Some (Num r, n')" "15 \<le> n'"
    by auto
  then show ?thesis by (simp add: toSiUnits_def)
qed

lemma count0: "q < 1000 \<Longrightarrow> toSiUnits (Num q) = Some (Num q, ''h/s'')"
  by (simp add: toSiUnits_def loop_small)

lemma count1:
  "1000 \<le> q \<Longrightarrow> div1000 q < 1000 \<Longrightarrow> toSiUnits (Num q) = Some (Num (div1000 q), ''Kh/s'')"
  by (simp add: toSiUnits_def loop_small loop_big)

lemma count2:
  "1000 \<le> q \<Longrightarrow> 1000 \<le> div1000 q \<Longrightarrow> div1000 (div1000 q) < 1000
     \<Longrightarrow> toSiUnits (Num q) = Some (Num (div1000 (div1000 q)), ''Mh/s'')"
  by (simp add: toSiUnits_def loop_small loop_big)

lemma count3:
  "1000 \<le> q \<Longrightarrow> 1000 \<le> div1000 q \<Longrightarrow> 1000 \<le> div1000 (div1000 q)
     \<Longrightarrow> div1000 (div1000 (div1000 q)) < 1000
     \<Longrightarrow> toSiUnits (Num q) = Some (Num (div1000 (div1000 (div1000 q))), ''Gh/s'')"
  by (simp add: toSiUnits_def loop_small loop_big)

lemma count4:
  "1000 \<le> q \<Longrightarrow> 1000 \<le> div1000 q \<Longrightarrow> 1000 \<le> div1000 (div1000 q)
     \<Longrightarrow> 1000 \<le> div1000 (div1000 (div1000 q))
     \<Longrightarrow> div1000 (div1000 (div1000 (div1000 q))) < 1000
     \<Longrightarrow> toSiUnits (Num q)
          = Some (Num (div1000 (div1000 (div1000 (div1000 q)))), ''Th/s'')"
  by (simp add: toSiUnits_def loop_small loop_big)


text \<open>
  C8, as the claim states it, fails for one \<^verbatim>\<open>float64\<close> that is at least \<open>1000 ^ 5\<close>: on
  \<open>+Inf\<close> the comparison holds in every pass and the quotient is \<open>+Inf\<close> again, so the call
  never returns and nothing is reported.
\<close>

theorem infinite_rate_never_reported:
  "toSiUnits PosInf = None \<and> toSiUnits PosInf \<noteq> Some (PosInf, ''h/s'')"
  by (simp add: infinite_rate_loops)

text \<open>
  C8, amended. \<^verbatim>\<open>toSiUnits\<close> divides the rate by 1000, rounding each quotient to
  binary64, as long as it is at least 1000, and picks the suffix from the number of
  divisions: 950 gives \<open>(950, h/s)\<close>, 1500 gives \<open>(1.5, Kh/s)\<close>, 2500000 gives
  \<open>(2.5, Mh/s)\<close>, exactly 1000 gives \<open>(1, Kh/s)\<close> (and 999999999999999 gives the rounded
  \<open>999.9999999999991\<close> with \<open>Th/s\<close>); a finite rate of \<open>1000 ^ 5\<close> or more is given back
  undivided with the suffix \<open>h/s\<close>; and a finite rate that falls below 1000 after \<open>k\<close>
  divisions, \<open>k\<close> from 0 to 4, is reported as the \<open>k\<close>-th quotient with the \<open>k\<close>-th suffix.
\<close>

theorem toSiUnits_units:
  "toSiUnits (Num 950) = Some (Num 950, ''h/s'')
   \<and> toSiUnits (Num 1500) = Some (Num 1.5, ''Kh/s'')
   \<and> toSiUnits (Num 2500000) = Some (Num 2.5, ''Mh/s'')
   \<and> toSiUnits (Num 1000) = Some (Num 1, ''Kh/s'')
   \<and> toSiUnits (Num 999999999999999) = Some (Num (1099511627775999 / 2 ^ 40), ''Th/s'')
   \<and> (1000 ^ 5 \<le> q \<longrightarrow> toSiUnits (Num q) = Some (Num q, ''h/s''))
   \<and> (q < 1000 \<longrightarrow> toSiUnits (Num q) = Some (Num q, ''h/s''))
   \<and> (1000 \<le> q \<and> div1000 q < 1000
        \<longrightarrow> toSiUnits (Num q) = Some (Num (div1000 q), ''Kh/s''))
   \<and> (1000 \<le> q \<and> 1000 \<le> div1000 q \<and> div1000 (div1000 q) < 1000
        \<longrightarrow> toSiUnits (Num q) = Some (Num (div1000 (div1000 q)), ''Mh/s''))
   \<and> (1000 \<le> q \<and> 1000 \<le> div1000 q \<and> 1000 \<le> div1000 (div1000 q)
        \<and> div1000 (div1000 (div1000 q)) < 1000
        \<longrightarrow> toSiUnits (Num q) = Some (Num (div1000 (div1000 (div1000 q))), ''Gh/s''))
   \<and> (1000 \<le> q \<and> 1000 \<le> div1000 q \<and> 1000 \<le> div1000 (div1000 q)
        \<and> 1000 \<le> div1000 (div1000 (div1000 q))
        \<and> div1000 (div1000 (div1000 (div1000 q))) < 1000
        \<longrightarrow> toSiUnits (Num q)
              = Some (Num (div1000 (div1000 (div1000 (div1000 q)))), ''Th/s''))"
  using sample_950 sample_1500 sample_2500000 sample_1000 sample_rounded
    beyond_Th [of q] count0 [of q] count1 [of q] count2 [of q] count3 [of q] count4 [of q]
  by blast

theorem toSiUnits_units_witness:
  "toSiUnits (Num 3000000000000000) = Some (Num 3000000000000000, ''h/s'')
   \<and> toSiUnits (Num 12) = Some (Num 12, ''h/s'')
   \<and> toSiUnits (Num 999999) = Some (Num (4398042113057489 / 2 ^ 42), ''Kh/s'')
   \<and> toSiUnits (Num 1000004) = Some (Num (2251808820884503 / 2 ^ 51), ''Mh/s'')
   \<and> toSiUnits (Num 7000000000) = Some (Num 7, ''Gh/s'')
   \<and> toSiUnits (Num 5000000000000) = Some (Num 5, ''Th/s'')"
proof -
  have k: "div1000 999999 = 4398042113057489 / 2 ^ 42"
    by (simp add: float_eval)
  have m: "div1000 1000004 = 8796128206580089 / 2 ^ 43"
    "div1000 (8796128206580089 / 2 ^ 43) = 2251808820884503 / 2 ^ 51"
    by (simp_all add: float_eval)
  have g: "div1000 7000000000 = 7000000" "div1000 7000000 = 7000" "div1000 7000 = 7"
    by (simp_all add: float_eval)
  have t: "div1000 5000000000000 = 5000000000" "div1000 5000000000 = 5000000"
    "div1000 5000000 = 5000" "div1000 5000 = 5"
    by (simp_all add: float_eval)
  from toSiUnits_units [of 3000000000000000]
  have "toSiUnits (Num 3000000000000000) = Some (Num 3000000000000000, ''h/s'')" by simp
  moreover from toSiUnits_units [of 12]
  have "toSiUnits (Num 12) = Some (Num 12, ''h/s'')" by simp
  moreover from toSiUnits_units [of 999999] k
  have "toSiUnits (Num 999999) = Some (Num (4398042113057489 / 2 ^ 42), ''Kh/s'')" by simp
  moreover from toSiUnits_units [of 1000004] m
  have "toSiUnits (Num 1000004) = Some (Num (2251808820884503 / 2 ^ 51), ''Mh/s'')" by simp
  moreover from toSiUnits_units [of 7000000000] g
  have "toSiUnits (Num 7000000000) = Some (Num 7, ''Gh/s'')" by simp
  moreover from toSiUnits_units [of 5000000000000] t
  have "toSiUnits (Num 5000000000000) = Some (Num 5, ''Th/s'')" by simp
  ultimately show ?thesis by blast
qed

section \<open>Properties of the request-id counter\<close>

lemma issue_eq: "issue n v = (map (\<lambda>i. v + of_nat i) [0..<n], v + of_nat n)"
proof (induction n arbitrary: v)
  case 0
  show ?case by simp
next
  case (Suc n)
  have "map (\<lambda>i. v + of_nat i) [0..<Suc n] = v # map (\<lambda>i. v + 1 + of_nat i) [0..<n]"
    by (simp add: map_upt_Suc add.assoc del: upt_Suc)
  then show ?case
    by (simp add: Suc incrementLatestID_def add.assoc del: upt_Suc)
qed

lemma ids_inj: "n \<le> 2 ^ 64 \<Longrightarrow> inj_on (\<lambda>i. (v :: 64 word) + of_nat i) {0..<n}"
proof (rule inj_onI)
  fix x y
  assume n: "n \<le> 2 ^ 64" and x: "x \<in> {0..<n}" and y: "y \<in> {0..<n}"
    and e: "v + of_nat x = v + of_nat y"
  from e have "(of_nat x :: 64 word) = of_nat y" by simp
  then have "unat (of_nat x :: 64 word) = unat (of_nat y :: 64 word)" by simp
  moreover have "x < 2 ^ 64" "y < 2 ^ 64" using n x y by auto
  ultimately show "x = y" by (simp add: unat_of_nat)
qed

lemma issue_distinct: "n \<le> 2 ^ 64 \<Longrightarrow> distinct (fst (issue n v))"
  by (simp add: issue_eq distinct_map ids_inj)

lemma issue_next: "Suc i < n \<Longrightarrow> fst (issue n v) ! Suc i = fst (issue n v) ! i + 1"
  by (simp add: issue_eq add.assoc)

text \<open>
  C6, as the claim states it, fails: two callers that overlap can both read the counter
  before either writes it, and then both return the same id.
\<close>

theorem overlapping_callers_share_an_id:
  "returned_ids (interleave [0, 1, 0, 1, 0, 1] (0, [new_caller, new_caller])) = [0, 0]
   \<and> \<not> distinct (returned_ids (interleave [0, 1, 0, 1, 0, 1] (0, [new_caller, new_caller])))"
  by (simp add: returned_ids_def new_caller_def caller_step_def)

text \<open>
  C6, amended. A call returns the current counter and leaves it one higher (modulo
  \<open>2 ^ 64\<close>). Calls that do not overlap therefore return consecutive ids: the \<open>i\<close>-th of
  \<open>n\<close> calls returns the start value plus \<open>i\<close>, each id is the one before plus 1, and up to
  \<open>2 ^ 64\<close> calls return no id twice.
\<close>

theorem serial_ids_consecutive:
  "incrementLatestID v = (v, v + 1)
   \<and> fst (issue n v) = map (\<lambda>i. v + of_nat i) [0..<n]
   \<and> snd (issue n v) = v + of_nat n
   \<and> (Suc i < n \<longrightarrow> fst (issue n v) ! Suc i = fst (issue n v) ! i + 1)
   \<and> (n \<le> 2 ^ 64 \<longrightarrow> distinct (fst (issue n v)))"
  using issue_next [of i n v] issue_distinct [of n v]
  by (simp add: issue_eq incrementLatestID_def)

theorem serial_ids_consecutive_witness:
  "fst (issue 3 7) = [7, 8, 9] \<and> fst (issue 3 7) ! 2 = fst (issue 3 7) ! 1 + 1
   \<and> distinct (fst (issue 3 7))"
  using serial_ids_consecutive [of 7 3 1]
  by (simp add: upt_conv_Cons)

section \<open>Properties of the result loop\<close>

declare resultLoop_send.simps [simp del]



lemma send_prime:
  "resultLoop_send receive 2 0 h = ([Submit 2 h, Submit 1 h, Submit 0 h], Returned ())"
  by (simp add: resultLoop_send.simps sendMinedHeaderNodes_def ctx_defs)

text \<open>
  C2. The code does not go on after a failed \<^verbatim>\<open>CalcOrder\<close>: here the first header on the
  result channel has no valid order and the second is a good Zone block; the loop logs
  the first and returns, and the second is never submitted.
\<close>

theorem invalid_order_ends_resultLoop:
  "resultLoop direct_config
       (\<lambda>h. if numberZone h = 0 then Inl ''invalid order'' else Inr ZONE_CTX) (\<lambda>i h. None)
       [header0\<lparr>numberZone := 0\<rparr>, header0]
     = ([Log ''Mined block had invalid order''], Returned ())"
  by (simp add: header0_def)



text \<open>
  C4. A failed submission leaves no log line: for a result of order Prime whose Region
  submission fails, the three submissions are made, and the only line logged is the
  classification of the block.
\<close>

theorem failed_submission_not_logged:
  "resultLoop direct_config (\<lambda>h. Inr PRIME_CTX)
       (\<lambda>i h. if i = REGION_CTX then Some ''connection refused'' else None) [header0]
     = ([Submit 2 header0, Submit 1 header0, Submit 0 header0, Log ''PRIME block : ''], Blocked)
   \<and> logged (fst (resultLoop direct_config (\<lambda>h. Inr PRIME_CTX)
       (\<lambda>i h. if i = REGION_CTX then Some ''connection refused'' else None) [header0]))
     = [''PRIME block : '']"
  by (simp add: send_prime ctx_defs classify_def direct_config_def)

section \<open>Properties of the mining loop\<close>


lemma sealing_body:
  "sealing (snd (miningLoop_body s u))
     = (case stopCh s of Some c \<Rightarrow> [CloseCh c] | None \<Rightarrow> [])
       @ [MakeCh (nextCh s), Seal ((received u)\<lparr>htime := now u\<rparr>) (nextCh s)]"
  by (simp add: miningLoop_body_def interrupt_def colours_def Let_def split: option.split)

lemma miningLoop_snd:
  "snd (miningLoop s (u # us))
     = snd (miningLoop_body s u) @ snd (miningLoop (fst (miningLoop_body s u)) us)"
  by (simp add: case_prod_beta)

lemma sealing_append: "sealing (xs @ ys) = sealing xs @ sealing ys"
  by (induction xs rule: sealing.induct) simp_all

lemma body_channels:
  "stopCh (fst (miningLoop_body s u)) = Some (nextCh s)"
  "nextCh (fst (miningLoop_body s u)) = Suc (nextCh s)"
  by (simp_all add: miningLoop_body_def interrupt_def Let_def split: option.split)

lemma sealing_loop:
  "sealing (snd (miningLoop s us))
     = concat (map (pass_events (stopCh s) (nextCh s) us) [0..<length us])"
proof (induction us arbitrary: s)
  case Nil
  show ?case by simp
next
  case (Cons u us)
  let ?s' = "fst (miningLoop_body s u)"
  have shift: "map (pass_events (stopCh ?s') (nextCh ?s') us) [0..<length us]
      = map (\<lambda>i. pass_events (stopCh s) (nextCh s) (u # us) (Suc i)) [0..<length us]"
    by (rule map_cong) (auto simp: pass_events_def body_channels)
  have "sealing (snd (miningLoop s (u # us)))
      = sealing (snd (miningLoop_body s u)) @ sealing (snd (miningLoop ?s' us))"
    by (simp only: miningLoop_snd sealing_append)
  also have "\<dots> = pass_events (stopCh s) (nextCh s) (u # us) 0
      @ concat (map (pass_events (stopCh ?s') (nextCh ?s') us) [0..<length us])"
  proof -
    have "sealing (snd (miningLoop_body s u)) = pass_events (stopCh s) (nextCh s) (u # us) 0"
      by (simp add: sealing_body pass_events_def)
    then show ?thesis by (simp only: Cons.IH)
  qed
  also have "\<dots> = concat (map (pass_events (stopCh s) (nextCh s) (u # us))
      [0..<length (u # us)])"
    by (simp only: shift) (simp add: map_upt_Suc del: upt_Suc)
  finally show ?case .
qed

lemma sealing_start:
  "sealing (snd (miningLoop miningLoop_start us))
     = concat (map (\<lambda>i. (if i = 0 then [] else [CloseCh (i - 1)])
         @ [MakeCh i, Seal ((received (us ! i))\<lparr>htime := now (us ! i)\<rparr>) i]) [0..<length us])"
proof -
  have "map (pass_events (stopCh miningLoop_start) (nextCh miningLoop_start) us) [0..<length us]
      = map (\<lambda>i. (if i = 0 then [] else [CloseCh (i - 1)])
         @ [MakeCh i, Seal ((received (us ! i))\<lparr>htime := now (us ! i)\<rparr>) i]) [0..<length us]"
    by (rule map_cong) (auto simp: pass_events_def miningLoop_start_def)
  then show ?thesis by (simp only: sealing_loop)
qed


lemma live_from_append: "live_from L (xs @ ys) = live_from (live_from L xs) ys"
  by (induction L xs rule: live_from.induct) simp_all

lemma calm_length: "calm L es \<Longrightarrow> length L \<le> 1"
  by (induction L es rule: calm.induct) simp_all

lemma calm_append: "calm L (xs @ ys) = (calm L xs \<and> calm (live_from L xs) ys)"
  by (induction L xs rule: calm.induct) (auto dest: calm_length)

lemma calm_take: "calm L es \<Longrightarrow> length (live_from L (take n es)) \<le> 1"
proof (induction L es arbitrary: n rule: calm.induct)
  case (1 L)
  then show ?case by simp
next
  case (2 L h c es)
  then show ?case by (cases n) simp_all
next
  case (3 L c es)
  then show ?case by (cases n) simp_all
qed (case_tac n; simp)+

lemma calm_seal:
  "calm L es \<Longrightarrow> n < length es \<Longrightarrow> es ! n = Seal h c \<Longrightarrow> live_from L (take n es) = []"
proof (induction L es arbitrary: n rule: calm.induct)
  case (1 L)
  then show ?case by simp
next
  case (2 L h' c' es)
  then show ?case by (cases n) simp_all
next
  case (3 L c' es)
  then show ?case by (cases n) simp_all
qed (case_tac n; simp)+

lemma body_calm:
  assumes "tracked s L"
  shows "calm L (snd (miningLoop_body s u))
     \<and> tracked (fst (miningLoop_body s u)) (live_from L (snd (miningLoop_body s u)))"
  using assms
  by (auto simp: tracked_def miningLoop_body_def interrupt_def colours_def Let_def
           split: option.split)

lemma loop_calm: "tracked s L \<Longrightarrow> calm L (snd (miningLoop s us))"
proof (induction us arbitrary: s L)
  case Nil
  then show ?case by (auto simp: tracked_def)
next
  case (Cons u us)
  from body_calm [OF Cons.prems, of u]
  have a: "calm L (snd (miningLoop_body s u))"
    and b: "tracked (fst (miningLoop_body s u)) (live_from L (snd (miningLoop_body s u)))"
    by simp_all
  from Cons.IH [OF b] a show ?case
    by (simp only: miningLoop_snd calm_append simp_thms)
qed

lemma start_calm: "calm [] (snd (miningLoop miningLoop_start us))"
  by (rule loop_calm) (simp add: tracked_def)

text \<open>
  C1. The loop runs its body on each header received, in order, and every pass acts on
  the stop channels in this order: it closes the stop channel of the attempt in flight,
  if there is one, then makes a new channel, then calls \<^verbatim>\<open>Seal\<close> with the received header
  (its time stamped) and the new channel. For every sequence of updates the calls made
  are therefore exactly these: for the \<open>i\<close>-th header, the channel of the header before
  is closed (for all but the first), channel \<open>i\<close> is made and \<^verbatim>\<open>Seal\<close> is called with the
  \<open>i\<close>-th header and channel \<open>i\<close>. At every point \<open>n\<close> of the trace at most one seal
  attempt is live, and whenever \<^verbatim>\<open>Seal\<close> is called no earlier attempt is live: each has
  been cancelled before.
\<close>

theorem miningLoop_one_live_seal:
  "sealing (snd (miningLoop_body s u))
     = (case stopCh s of Some c \<Rightarrow> [CloseCh c] | None \<Rightarrow> [])
       @ [MakeCh (nextCh s), Seal ((received u)\<lparr>htime := now u\<rparr>) (nextCh s)]
   \<and> length (live (take n (snd (miningLoop miningLoop_start us)))) \<le> 1
   \<and> (n < length (snd (miningLoop miningLoop_start us))
        \<and> snd (miningLoop miningLoop_start us) ! n = Seal h c
      \<longrightarrow> live (take n (snd (miningLoop miningLoop_start us))) = [])
   \<and> miningLoop s [] = (s, [])
   \<and> snd (miningLoop s (u # us))
       = snd (miningLoop_body s u) @ snd (miningLoop (fst (miningLoop_body s u)) us)
   \<and> sealing (snd (miningLoop miningLoop_start us))
       = concat (map (\<lambda>i. (if i = 0 then [] else [CloseCh (i - 1)])
                   @ [MakeCh i, Seal ((received (us ! i))\<lparr>htime := now (us ! i)\<rparr>) i])
           [0..<length us])"
  using calm_take [OF start_calm] calm_seal [OF start_calm]
  by (simp add: sealing_body live_def miningLoop_snd sealing_start del: miningLoop.simps(2))

theorem miningLoop_one_live_seal_witness:
  "length (live (take 3 (snd (miningLoop miningLoop_start [update1, update2])))) \<le> 1
   \<and> live (take 6 (snd (miningLoop miningLoop_start [update1, update2]))) = []
   \<and> sealing (snd (miningLoop miningLoop_start [update1, update2]))
       = [MakeCh 0, Seal (header0\<lparr>htime := 100\<rparr>) 0,
          CloseCh 0, MakeCh 1, Seal (header0\<lparr>numberZone := 4, htime := 101\<rparr>) 1]"
proof -
  let ?tr = "snd (miningLoop miningLoop_start [update1, update2])"
  have tr: "?tr = [MakeCh 0, LogMining Red Red Red, Seal (header0\<lparr>htime := 100\<rparr>) 0,
         CloseCh 0, MakeCh 1, LogMining Plain Plain Blue,
         Seal (header0\<lparr>numberZone := 4, htime := 101\<rparr>) 1]"
    by (simp add: miningLoop_start_def update1_def update2_def header0_def
          miningLoop_body_def interrupt_def colours_def NumberU64_def ctx_defs)
  note t = miningLoop_one_live_seal [of miningLoop_start update1 _ "[update1, update2]"
      "header0\<lparr>numberZone := 4, htime := 101\<rparr>" 1]
  from t [of 3] have a: "length (live (take 3 ?tr)) \<le> 1"
    by blast
  have "6 < length ?tr \<and> ?tr ! 6 = Seal (header0\<lparr>numberZone := 4, htime := 101\<rparr>) 1"
    unfolding tr by simp
  with t [of 6] have b: "live (take 6 ?tr) = []"
    by blast
  from t [of 0] have "sealing ?tr
       = concat (map (\<lambda>i. (if i = 0 then [] else [CloseCh (i - 1)])
                   @ [MakeCh i, Seal ((received ([update1, update2] ! i))
                                        \<lparr>htime := now ([update1, update2] ! i)\<rparr>) i])
           [0..<length [update1, update2]])"
    by blast
  also have "\<dots> = [MakeCh 0, Seal (header0\<lparr>htime := 100\<rparr>) 0,
          CloseCh 0, MakeCh 1, Seal (header0\<lparr>numberZone := 4, htime := 101\<rparr>) 1]"
    by (simp add: upt_conv_Cons update1_def update2_def)
  finally have c: "sealing ?tr = [MakeCh 0, Seal (header0\<lparr>htime := 100\<rparr>) 0,
          CloseCh 0, MakeCh 1, Seal (header0\<lparr>numberZone := 4, htime := 101\<rparr>) 1]" .
  from a b c show ?thesis by (intro conjI)
qed

end
